theory Spec2Isabelle
  imports Complex_Main "HOL-Library.AList" "HOL-Library.Sublist"
begin

section \<open>Rental charges calculator (charges\_calc.py)\<close>

text \<open>
  A shallow embedding of \<^verbatim>\<open>students/JoeNunnelley/lesson02/assignment/charges_calc.py\<close>.
  The script loads a JSON object of rental records, validates each record
  (\<^verbatim>\<open>check_value_set\<close>), adds four derived fields to the records that pass
  (\<^verbatim>\<open>calculate_additional_fields\<close>) and writes the survivors back as JSON
  (\<^verbatim>\<open>save_to_json\<close>).

  Modelling decisions:
  \<^item> A Python value that \<^verbatim>\<open>json.load\<close> can produce is a \<open>json\<close>; a dict is an
    association list in insertion order, read with \<open>map_of\<close> and written with
    \<open>AList.update\<close> (replace in place, or append), as Python dicts behave.
  \<^item> Python \<^verbatim>\<open>int\<close> is \<open>int\<close>. A Python \<^verbatim>\<open>float\<close> is modelled by the real number
    it stands for: rounding and the non-finite values are outside the model, but the
    \<^verbatim>\<open>OverflowError\<close> of converting an integer beyond the double range is kept.
  \<^item> Strings are lists of 8-bit characters; among those the characters matched by the
    regular expression class \<^verbatim>\<open>\d\<close> are exactly \<^verbatim>\<open>0\<close> to \<^verbatim>\<open>9\<close>.
  \<^item> Every exception is a value of \<open>exn\<close>; a computation returns \<open>exn + 'a\<close> together
    with the log records it emitted, in order.
  \<^item> \<^verbatim>\<open>assert\<close> statements are executed (the interpreter runs without \<^verbatim>\<open>-O\<close>).
  \<^item> The file system is a map from paths to contents; the log is the list of emitted
    records rather than a file, and the command line is reduced to its two paths.
\<close>

subsection \<open>Values, exceptions, log records\<close>

datatype json =
    JNull
  | JBool bool
  | JInt int
  | JFloat real
  | JStr string
  | JArr "json list"
  | JObj "(string \<times> json) list"

datatype value_error =
    No_match string          \<comment> \<open>time data does not match format\<close>
  | Unconverted string       \<comment> \<open>unconverted data remains\<close>
  | Out_of_range             \<comment> \<open>the date constructor rejects year, month or day\<close>
  | Math_domain              \<comment> \<open>math domain error\<close>
  | Json_decode              \<comment> \<open>json.JSONDecodeError, a subclass of ValueError\<close>

datatype exn =
    AssertionError string
  | KeyError string
  | TypeError
  | AttributeError
  | ValueError value_error
  | ZeroDivisionError
  | OverflowError
  | FileNotFoundError string
  | SystemExit int

datatype level = DEBUG | WARNING | ERROR

datatype message =
    Text string               \<comment> \<open>a literal message\<close>
  | Fmt string json           \<comment> \<open>a format string and its argument\<close>
  | Fmt_str string string     \<comment> \<open>a format string and a string argument\<close>
  | Exc exn                   \<comment> \<open>an exception object passed as the message\<close>

type_synonym log_record = "level \<times> message"

text \<open>A computation: its outcome and the log records it emitted.\<close>

type_synonym 'a py = "(exn + 'a) \<times> log_record list"

definition py_return :: "'a \<Rightarrow> 'a py" where
  "py_return x = (Inr x, [])"

definition py_raise :: "exn \<Rightarrow> 'a py" where
  "py_raise e = (Inl e, [])"

definition py_bind :: "'a py \<Rightarrow> ('a \<Rightarrow> 'b py) \<Rightarrow> 'b py" where
  "py_bind m f =
     (case m of
        (Inl e, l) \<Rightarrow> (Inl e, l)
      | (Inr x, l) \<Rightarrow> (case f x of (r, l') \<Rightarrow> (r, l @ l')))"

definition py_seq :: "unit py \<Rightarrow> 'b py \<Rightarrow> 'b py" where
  "py_seq m n = py_bind m (\<lambda>_. n)"

text \<open>\<^verbatim>\<open>try: m except ...: h\<close>; \<open>h e = None\<close> when no clause matches \<open>e\<close>.\<close>

definition py_try :: "'a py \<Rightarrow> (exn \<Rightarrow> 'a py option) \<Rightarrow> 'a py" where
  "py_try m h =
     (case m of
        (Inr x, l) \<Rightarrow> (Inr x, l)
      | (Inl e, l) \<Rightarrow>
          (case h e of
             None \<Rightarrow> (Inl e, l)
           | Some n \<Rightarrow> (case n of (r, l') \<Rightarrow> (r, l @ l'))))"

definition lift :: "exn + 'a \<Rightarrow> 'a py" where
  "lift r = (r, [])"

definition logger :: "level \<Rightarrow> message \<Rightarrow> unit py" where
  "logger lvl msg = (Inr (), [(lvl, msg)])"

definition py_assert :: "bool \<Rightarrow> string \<Rightarrow> unit py" where
  "py_assert b msg = (if b then py_return () else py_raise (AssertionError msg))"

text \<open>\<^verbatim>\<open>exit(0)\<close> raises \<^verbatim>\<open>SystemExit(0)\<close>.\<close>

definition py_exit :: "int \<Rightarrow> 'a py" where
  "py_exit n = py_raise (SystemExit n)"

subsection \<open>Python operations on values\<close>

text \<open>Truth value of an object, as \<^verbatim>\<open>assert x\<close> and \<^verbatim>\<open>if x\<close> test it.\<close>

fun truthy :: "json \<Rightarrow> bool" where
  "truthy JNull = False"
| "truthy (JBool b) = b"
| "truthy (JInt i) = (i \<noteq> 0)"
| "truthy (JFloat r) = (r \<noteq> 0)"
| "truthy (JStr s) = (s \<noteq> [])"
| "truthy (JArr xs) = (xs \<noteq> [])"
| "truthy (JObj kvs) = (kvs \<noteq> [])"

text \<open>\<^verbatim>\<open>value[key]\<close> with a string key.\<close>

fun getitem :: "json \<Rightarrow> string \<Rightarrow> exn + json" where
  "getitem (JObj kvs) k =
     (case map_of kvs k of None \<Rightarrow> Inl (KeyError k) | Some v \<Rightarrow> Inr v)"
| "getitem _ k = Inl TypeError"

text \<open>\<^verbatim>\<open>value[key] = x\<close> with a string key.\<close>

fun setitem :: "json \<Rightarrow> string \<Rightarrow> json \<Rightarrow> exn + json" where
  "setitem (JObj kvs) k x = Inr (JObj (AList.update k x kvs))"
| "setitem _ k x = Inl TypeError"

datatype num = NInt int | NFloat real

text \<open>The numeric types: \<^verbatim>\<open>bool\<close> is a subclass of \<^verbatim>\<open>int\<close>.\<close>

fun as_num :: "json \<Rightarrow> num option" where
  "as_num (JBool b) = Some (NInt (if b then 1 else 0))"
| "as_num (JInt i) = Some (NInt i)"
| "as_num (JFloat r) = Some (NFloat r)"
| "as_num _ = None"

text \<open>\<^verbatim>\<open>x >= 0\<close>.\<close>

definition ge_zero :: "json \<Rightarrow> exn + bool" where
  "ge_zero x =
     (case as_num x of
        None \<Rightarrow> Inl TypeError
      | Some (NInt i) \<Rightarrow> Inr (0 \<le> i)
      | Some (NFloat r) \<Rightarrow> Inr (0 \<le> r))"

text \<open>
  Converting an integer to a double rounds to nearest, ties to even, and raises
  \<^verbatim>\<open>OverflowError\<close> when the result would be \<open>2 ^ 1024\<close> or more.
\<close>

definition float_overflow :: int where
  "float_overflow = 2 ^ 1024 - 2 ^ 970"

definition to_float :: "int \<Rightarrow> exn + real" where
  "to_float i = (if float_overflow \<le> \<bar>i\<bar> then Inl OverflowError else Inr (real_of_int i))"

text \<open>\<^verbatim>\<open>n * x\<close> for an integer \<open>n\<close>: a product of numbers, or a repeated sequence.\<close>

definition int_mul :: "int \<Rightarrow> json \<Rightarrow> exn + json" where
  "int_mul n x =
     (case x of
        JStr s \<Rightarrow> Inr (JStr (concat (replicate (nat n) s)))
      | JArr xs \<Rightarrow> Inr (JArr (concat (replicate (nat n) xs)))
      | _ \<Rightarrow>
        (case as_num x of
           None \<Rightarrow> Inl TypeError
         | Some (NInt i) \<Rightarrow> Inr (JInt (n * i))
         | Some (NFloat r) \<Rightarrow>
             (case to_float n of Inl e \<Rightarrow> Inl e | Inr f \<Rightarrow> Inr (JFloat (f * r)))))"

text \<open>\<^verbatim>\<open>x * y\<close>.\<close>

definition mul :: "json \<Rightarrow> json \<Rightarrow> exn + json" where
  "mul x y =
     (case as_num x of
        Some (NInt n) \<Rightarrow> int_mul n y
      | Some (NFloat r) \<Rightarrow>
          (case as_num y of
             None \<Rightarrow> Inl TypeError
           | Some (NInt i) \<Rightarrow>
               (case to_float i of Inl e \<Rightarrow> Inl e | Inr f \<Rightarrow> Inr (JFloat (r * f)))
           | Some (NFloat q) \<Rightarrow> Inr (JFloat (r * q)))
      | None \<Rightarrow>
          (case as_num y of
             Some (NInt n) \<Rightarrow>
               (case x of
                  JStr s \<Rightarrow> int_mul n x
                | JArr xs \<Rightarrow> int_mul n x
                | _ \<Rightarrow> Inl TypeError)
           | _ \<Rightarrow> Inl TypeError))"

text \<open>\<^verbatim>\<open>math.sqrt(x)\<close>: the argument is converted to a double first.\<close>

definition math_sqrt :: "json \<Rightarrow> exn + json" where
  "math_sqrt x =
     (case as_num x of
        None \<Rightarrow> Inl TypeError
      | Some n \<Rightarrow>
          (case (case n of NInt i \<Rightarrow> to_float i | NFloat r \<Rightarrow> Inr r) of
             Inl e \<Rightarrow> Inl e
           | Inr r \<Rightarrow> if r < 0 then Inl (ValueError Math_domain) else Inr (JFloat (sqrt r))))"

text \<open>\<^verbatim>\<open>x / y\<close>, true division.\<close>

definition truediv :: "json \<Rightarrow> json \<Rightarrow> exn + json" where
  "truediv x y =
     (case (as_num x, as_num y) of
        (Some (NInt a), Some (NInt b)) \<Rightarrow>
          if b = 0 then Inl ZeroDivisionError
          else if real_of_int float_overflow \<le> \<bar>real_of_int a / real_of_int b\<bar>
               then Inl OverflowError
          else Inr (JFloat (real_of_int a / real_of_int b))
      | (Some (NFloat a), Some (NInt b)) \<Rightarrow>
          (case to_float b of
             Inl e \<Rightarrow> Inl e
           | Inr f \<Rightarrow> if f = 0 then Inl ZeroDivisionError else Inr (JFloat (a / f)))
      | (Some (NInt a), Some (NFloat b)) \<Rightarrow>
          (case to_float a of
             Inl e \<Rightarrow> Inl e
           | Inr f \<Rightarrow> if b = 0 then Inl ZeroDivisionError else Inr (JFloat (f / b)))
      | (Some (NFloat a), Some (NFloat b)) \<Rightarrow>
          if b = 0 then Inl ZeroDivisionError else Inr (JFloat (a / b))
      | _ \<Rightarrow> Inl TypeError)"

subsection \<open>The standard library's dates\<close>

text \<open>
  \<^verbatim>\<open>datetime.datetime.strptime(s, '%m/%d/%y')\<close> yields a datetime at midnight, so only
  the date part is kept. The functions below follow \<^verbatim>\<open>datetime.py\<close> and
  \<^verbatim>\<open>_strptime.py\<close> of the standard library.
\<close>

record date =
  year :: int
  month :: int
  day :: int

definition is_leap :: "int \<Rightarrow> bool" where
  "is_leap y = (y mod 4 = 0 \<and> (y mod 100 \<noteq> 0 \<or> y mod 400 = 0))"

definition DAYS_IN_MONTH :: "int list" where
  "DAYS_IN_MONTH = [-1, 31, 28, 31, 30, 31, 30, 31, 31, 30, 31, 30, 31]"

definition DAYS_BEFORE_MONTH :: "int list" where
  "DAYS_BEFORE_MONTH = [-1, 0, 31, 59, 90, 120, 151, 181, 212, 243, 273, 304, 334]"

definition days_before_year :: "int \<Rightarrow> int" where
  "days_before_year y = (y - 1) * 365 + (y - 1) div 4 - (y - 1) div 100 + (y - 1) div 400"

text \<open>Both table lookups are only made with \<open>1 \<le> m \<le> 12\<close>.\<close>

definition days_in_month :: "int \<Rightarrow> int \<Rightarrow> int" where
  "days_in_month y m = (if m = 2 \<and> is_leap y then 29 else DAYS_IN_MONTH ! nat m)"

definition days_before_month :: "int \<Rightarrow> int \<Rightarrow> int" where
  "days_before_month y m = DAYS_BEFORE_MONTH ! nat m + (if 2 < m \<and> is_leap y then 1 else 0)"

text \<open>The checks of the \<^verbatim>\<open>date\<close> constructor.\<close>

definition date_new :: "int \<Rightarrow> int \<Rightarrow> int \<Rightarrow> exn + date" where
  "date_new y m d =
     (if \<not> (1 \<le> y \<and> y \<le> 9999) then Inl (ValueError Out_of_range)
      else if \<not> (1 \<le> m \<and> m \<le> 12) then Inl (ValueError Out_of_range)
      else if \<not> (1 \<le> d \<and> d \<le> days_in_month y m) then Inl (ValueError Out_of_range)
      else Inr \<lparr>year = y, month = m, day = d\<rparr>)"

definition toordinal :: "date \<Rightarrow> int" where
  "toordinal dt = days_before_year (year dt) + days_before_month (year dt) (month dt) + day dt"

text \<open>\<^verbatim>\<open>a <= b\<close> compares the fields in order.\<close>

definition date_le :: "date \<Rightarrow> date \<Rightarrow> bool" where
  "date_le a b =
     (year a < year b \<or>
      (year a = year b \<and> (month a < month b \<or> (month a = month b \<and> day a \<le> day b))))"

text \<open>\<^verbatim>\<open>(a - b).days\<close>.\<close>

definition days_between :: "date \<Rightarrow> date \<Rightarrow> int" where
  "days_between a b = toordinal a - toordinal b"

text \<open>
  The format \<^verbatim>\<open>%m/%d/%y\<close> compiles to the regular expression
  \<^verbatim>\<open>(?P<m>1[0-2]|0[1-9]|[1-9])/(?P<d>3[0-1]|[1-2]\d|0[1-9]|[1-9]| [1-9])/(?P<y>\d\d)\<close>,
  matched at the start of the string. Each group below lists the ways its alternatives
  match a prefix, in the order a backtracking matcher tries them, with the number the
  matched text converts to and the rest of the string.
\<close>

definition digit_val :: "char \<Rightarrow> int option" where
  "digit_val c =
     map_of [(CHR ''0'', 0), (CHR ''1'', 1), (CHR ''2'', 2), (CHR ''3'', 3), (CHR ''4'', 4),
             (CHR ''5'', 5), (CHR ''6'', 6), (CHR ''7'', 7), (CHR ''8'', 8), (CHR ''9'', 9)] c"

definition digit_in :: "int \<Rightarrow> int \<Rightarrow> string \<Rightarrow> (int \<times> string) list" where
  "digit_in lo hi s =
     (case s of
        [] \<Rightarrow> []
      | c # r \<Rightarrow>
          (case digit_val c of
             None \<Rightarrow> []
           | Some v \<Rightarrow> if lo \<le> v \<and> v \<le> hi then [(v, r)] else []))"

definition two_digits :: "int \<Rightarrow> int \<Rightarrow> int \<Rightarrow> int \<Rightarrow> string \<Rightarrow> (int \<times> string) list" where
  "two_digits lo1 hi1 lo2 hi2 s =
     [(10 * a + b, r2). (a, r1) \<leftarrow> digit_in lo1 hi1 s, (b, r2) \<leftarrow> digit_in lo2 hi2 r1]"

definition literal :: "char \<Rightarrow> string \<Rightarrow> string list" where
  "literal c s = (case s of [] \<Rightarrow> [] | x # r \<Rightarrow> if x = c then [r] else [])"

definition re_month :: "string \<Rightarrow> (int \<times> string) list" where
  "re_month s = two_digits 1 1 0 2 s @ two_digits 0 0 1 9 s @ digit_in 1 9 s"

definition re_day :: "string \<Rightarrow> (int \<times> string) list" where
  "re_day s =
     two_digits 3 3 0 1 s @ two_digits 1 2 0 9 s @ two_digits 0 0 1 9 s @ digit_in 1 9 s
     @ [(d, r2). r1 \<leftarrow> literal CHR '' '' s, (d, r2) \<leftarrow> digit_in 1 9 r1]"

definition re_year :: "string \<Rightarrow> (int \<times> string) list" where
  "re_year s = two_digits 0 9 0 9 s"

definition re_match :: "string \<Rightarrow> (int \<times> int \<times> int \<times> string) list" where
  "re_match s =
     [(m, d, y, r5).
        (m, r1) \<leftarrow> re_month s, r2 \<leftarrow> literal CHR ''/'' r1,
        (d, r3) \<leftarrow> re_day r2, r4 \<leftarrow> literal CHR ''/'' r3,
        (y, r5) \<leftarrow> re_year r4]"

text \<open>
  The first match decides. Text left after it is an error, a two-digit year up to 68 is
  in the 2000s, and the date constructor checks the day against the month.
\<close>

definition strptime_str :: "string \<Rightarrow> exn + date" where
  "strptime_str s =
     (case re_match s of
        [] \<Rightarrow> Inl (ValueError (No_match s))
      | (m, d, y, rest) # _ \<Rightarrow>
          if rest \<noteq> [] then Inl (ValueError (Unconverted rest))
          else date_new (if y \<le> 68 then y + 2000 else y + 1900) m d)"

text \<open>\<^verbatim>\<open>strptime\<close> accepts only a \<^verbatim>\<open>str\<close>.\<close>

definition strptime :: "json \<Rightarrow> exn + date" where
  "strptime x = (case x of JStr s \<Rightarrow> strptime_str s | _ \<Rightarrow> Inl TypeError)"

subsection \<open>check\_value\_set\<close>

text \<open>
  Lines 124 to 140, statement by statement; each \<^verbatim>\<open>value[...]\<close> is a lookup of its own.
\<close>

definition check_value_set_body :: "json \<Rightarrow> bool py" where
  "check_value_set_body v =
     py_seq (logger DEBUG (Text ''Checking price_per_day value''))
    (py_bind (lift (getitem v ''price_per_day'')) (\<lambda>p.
     py_seq (py_assert (truthy p) ''missing price_per_day'')
    (py_bind (lift (getitem v ''price_per_day'')) (\<lambda>p.
     py_bind (lift (ge_zero p)) (\<lambda>b.
     py_seq (py_assert b ''invalid price_per_day'')
    (py_seq (logger DEBUG (Text ''Checking product_code value''))
    (py_bind (lift (getitem v ''product_code'')) (\<lambda>c.
     py_seq (py_assert (truthy c) ''missing product code'')
    (py_seq (logger DEBUG (Text ''Making sure rental date values are present''))
    (py_bind (lift (getitem v ''rental_start'')) (\<lambda>s.
     py_seq (py_assert (truthy s) ''missing rental_start value'')
    (py_bind (lift (getitem v ''rental_end'')) (\<lambda>e.
     py_seq (py_assert (truthy e) ''missing rental_end value'')
    (py_seq (logger DEBUG (Text ''Checking rental date values make sense''))
    (py_bind (lift (getitem v ''rental_start'')) (\<lambda>s.
     py_bind (lift (strptime s)) (\<lambda>start.
     py_bind (lift (getitem v ''rental_end'')) (\<lambda>e.
     py_bind (lift (strptime e)) (\<lambda>end.
     py_seq (py_assert (date_le start end) ''invalid rental dates'')
    (py_seq (logger DEBUG (Text ''Checking units_rented value''))
    (py_bind (lift (getitem v ''units_rented'')) (\<lambda>u.
     py_seq (py_assert (truthy u) ''missing units_rented value'')
    (py_bind (lift (getitem v ''units_rented'')) (\<lambda>u.
     py_bind (lift (ge_zero u)) (\<lambda>b.
     py_seq (py_assert b ''invalid units_rented value'')
    (py_return True))))))))))))))))))))))))))"

text \<open>Lines 141 to 143: only \<^verbatim>\<open>AssertionError\<close> is caught.\<close>

definition check_value_set :: "json \<Rightarrow> bool py" where
  "check_value_set v =
     py_try (check_value_set_body v)
       (\<lambda>x. case x of
          AssertionError ae \<Rightarrow>
            Some (py_seq (logger WARNING (Fmt_str ''Data validation failed: {}'' ae))
                         (py_return False))
        | _ \<Rightarrow> None)"

subsection \<open>calculate\_additional\_fields\<close>

text \<open>
  Lines 92 to 105, the body of the \<^verbatim>\<open>if\<close>: the record is updated field by field, and
  each right-hand side reads the record as it is at that point. Lines 92 to 100 parse the
  dates again and assign \<open>total_days\<close>; lines 101 to 105 assign the three fields computed
  from the price.
\<close>

definition assign_total_days :: "json \<Rightarrow> json py" where
  "assign_total_days v0 =
     py_bind (lift (getitem v0 ''rental_start'')) (\<lambda>s.
     py_bind (lift (strptime s)) (\<lambda>rental_start.
     py_bind (lift (getitem v0 ''rental_end'')) (\<lambda>e.
     py_bind (lift (strptime e)) (\<lambda>rental_end.
     py_bind (lift (setitem v0 ''total_days'' (JInt (days_between rental_end rental_start)))) (\<lambda>v1.
     py_return v1)))))"

definition assign_price_fields :: "json \<Rightarrow> json py" where
  "assign_price_fields v1 =
     py_bind (lift (getitem v1 ''total_days'')) (\<lambda>td.
     py_bind (lift (getitem v1 ''price_per_day'')) (\<lambda>p.
     py_bind (lift (mul td p)) (\<lambda>tp.
     py_bind (lift (setitem v1 ''total_price'' tp)) (\<lambda>v2.
     py_bind (lift (getitem v2 ''total_price'')) (\<lambda>tp.
     py_bind (lift (math_sqrt tp)) (\<lambda>sq.
     py_bind (lift (setitem v2 ''sqrt_total_price'' sq)) (\<lambda>v3.
     py_bind (lift (getitem v3 ''total_price'')) (\<lambda>tp.
     py_bind (lift (getitem v3 ''units_rented'')) (\<lambda>u.
     py_bind (lift (truediv tp u)) (\<lambda>uc.
     py_bind (lift (setitem v3 ''unit_cost'' uc)) (\<lambda>v4.
     py_return v4)))))))))))"

definition additional_fields :: "json \<Rightarrow> json py" where
  "additional_fields v0 = py_bind (assign_total_days v0) assign_price_fields"

definition ADDED :: string where
  "ADDED = ''Added validated item to scrubbed dataset:'' @ [CHR 0x0A] @ ''%s''"

definition SKIPPING :: string where
  "SKIPPING = ''Skipping item due to invalid data issues:'' @ [CHR 0x0A] @ ''%s''"

text \<open>
  Lines 65 to 114, one turn of the loop: the \<^verbatim>\<open>try\<close> block with its handler for
  \<^verbatim>\<open>ValueError\<close>; the result is the new \<^verbatim>\<open>cleaned_data\<close>.
\<close>

definition loop_body ::
  "string \<Rightarrow> json \<Rightarrow> (string \<times> json) list \<Rightarrow> (string \<times> json) list py" where
  "loop_body key v cleaned_data =
     py_try
       (py_bind (check_value_set v) (\<lambda>ok.
          if ok then
            py_bind (additional_fields v) (\<lambda>v'.
            py_seq (logger DEBUG (Fmt ADDED v'))
                   (py_return (AList.update key v' cleaned_data)))
          else
            py_seq (logger DEBUG (Fmt SKIPPING v)) (py_return cleaned_data)))
       (\<lambda>x. case x of
          ValueError value_error \<Rightarrow> Some (py_seq (logger ERROR (Exc x)) (py_exit 0))
        | _ \<Rightarrow> None)"

fun calc_loop :: "(string \<times> json) list \<Rightarrow> (string \<times> json) list \<Rightarrow> (string \<times> json) list py" where
  "calc_loop [] cleaned_data = py_return cleaned_data"
| "calc_loop ((key, v) # rest) cleaned_data =
     py_bind (loop_body key v cleaned_data) (calc_loop rest)"

text \<open>\<^verbatim>\<open>data.items()\<close> exists only when the loaded document is an object.\<close>

definition calculate_additional_fields :: "json \<Rightarrow> (string \<times> json) list py" where
  "calculate_additional_fields data =
     (case data of JObj items \<Rightarrow> calc_loop items [] | _ \<Rightarrow> py_raise AttributeError)"

subsection \<open>Files: load\_rentals\_file, save\_to\_json and the script\<close>

text \<open>
  A file holds either the text of a JSON document, kept as the value it denotes and the
  indentation it was written with, or text that \<^verbatim>\<open>json.load\<close> rejects. Opening a
  path for reading fails when no file is there; opening for writing creates the file.
\<close>

datatype content = Json_text json nat | Other_text string

type_synonym files = "string \<rightharpoonup> content"

definition json_load :: "content \<Rightarrow> exn + json" where
  "json_load c = (case c of Json_text v i \<Rightarrow> Inr v | Other_text t \<Rightarrow> Inl (ValueError Json_decode))"

text \<open>
  Lines 51 to 57: \<^verbatim>\<open>open(filename)\<close> is the context expression of the \<^verbatim>\<open>with\<close>
  statement and runs before the \<^verbatim>\<open>try\<close> inside it is entered.
\<close>

definition load_rentals_file :: "files \<Rightarrow> string \<Rightarrow> json py" where
  "load_rentals_file fs filename =
     (case fs filename of
        None \<Rightarrow> py_raise (FileNotFoundError filename)
      | Some file \<Rightarrow>
          py_try (lift (json_load file))
            (\<lambda>x. case x of
               FileNotFoundError n \<Rightarrow>
                 Some (py_seq (logger ERROR (Fmt_str ''Missing file %s'' filename)) (py_exit 0))
             | _ \<Rightarrow> None))"

definition save_to_json :: "files \<Rightarrow> string \<Rightarrow> json \<Rightarrow> files \<times> unit py" where
  "save_to_json fs filename data =
     (if truthy data
      then (fs(filename \<mapsto> Json_text data 2), logger DEBUG (Fmt_str ''Saving file %s'' filename))
      else (fs, logger WARNING (Text ''Data is invalid. Skipping file writing'')))"

text \<open>Lines 158 to 161, with the two paths of the command line as arguments.\<close>

definition main :: "files \<Rightarrow> string \<Rightarrow> string \<Rightarrow> files \<times> unit py" where
  "main fs input output =
     (case load_rentals_file fs input of
        (Inl e, l1) \<Rightarrow> (fs, (Inl e, l1))
      | (Inr data, l1) \<Rightarrow>
          (case calculate_additional_fields data of
             (Inl e, l2) \<Rightarrow> (fs, (Inl e, l1 @ l2))
           | (Inr cleaned, l2) \<Rightarrow>
               (case save_to_json fs output (JObj cleaned) of
                  (fs', (r, l3)) \<Rightarrow> (fs', (r, l1 @ l2 @ l3)))))"

subsection \<open>Auxiliary notions for the proofs\<close>

text \<open>A computation with log records emitted before it.\<close>

definition emit :: "log_record list \<Rightarrow> 'a py \<Rightarrow> 'a py" where
  "emit l m = (fst m, l @ snd m)"

text \<open>The length of a year, and the dates the \<^verbatim>\<open>date\<close> constructor accepts.\<close>

definition days_in_year :: "int \<Rightarrow> int" where
  "days_in_year y = (if is_leap y then 366 else 365)"

definition valid_date :: "date \<Rightarrow> bool" where
  "valid_date d =
     (1 \<le> year d \<and> year d \<le> 9999 \<and> 1 \<le> month d \<and> month d \<le> 12 \<and>
      1 \<le> day d \<and> day d \<le> days_in_month (year d) (month d))"

text \<open>
  The validated records on which the enrichment overflows: an integer price makes the
  total price an integer, which \<^verbatim>\<open>math.sqrt\<close> converts to a double; a float price makes
  the total price a float, and the division converts integer units to a double.
\<close>

definition overflows :: "int \<Rightarrow> json \<Rightarrow> json \<Rightarrow> bool" where
  "overflows total_days price_per_day units_rented =
     (case as_num price_per_day of
        None \<Rightarrow> False
      | Some (NInt i) \<Rightarrow> float_overflow \<le> total_days * i
      | Some (NFloat r) \<Rightarrow>
          (case as_num units_rented of
             Some (NInt j) \<Rightarrow> float_overflow \<le> j
           | _ \<Rightarrow> False))"

subsection \<open>Example records\<close>

text \<open>The record of the first end-to-end example, before and after enrichment.\<close>

definition rental_A :: json where
  "rental_A = JObj
     [(''product_code'', JStr ''X''), (''price_per_day'', JInt 10), (''units_rented'', JInt 2),
      (''rental_start'', JStr ''01/01/20''), (''rental_end'', JStr ''01/03/20'')]"

definition rental_A_enriched :: json where
  "rental_A_enriched = JObj
     [(''product_code'', JStr ''X''), (''price_per_day'', JInt 10), (''units_rented'', JInt 2),
      (''rental_start'', JStr ''01/01/20''), (''rental_end'', JStr ''01/03/20''),
      (''total_days'', JInt 2), (''total_price'', JInt 20),
      (''sqrt_total_price'', JFloat (sqrt 20)), (''unit_cost'', JFloat 10)]"

text \<open>The debug records of a validation in which every check passes.\<close>

definition CHECK_LOG :: "log_record list" where
  "CHECK_LOG =
     [(DEBUG, Text ''Checking price_per_day value''),
      (DEBUG, Text ''Checking product_code value''),
      (DEBUG, Text ''Making sure rental date values are present''),
      (DEBUG, Text ''Checking rental date values make sense''),
      (DEBUG, Text ''Checking units_rented value'')]"

text \<open>A record that passes every check, with a price of \<open>10 ^ 400\<close>.\<close>

definition rental_huge :: json where
  "rental_huge = JObj
     [(''product_code'', JStr ''X''), (''price_per_day'', JInt (10 ^ 400)),
      (''units_rented'', JInt 2),
      (''rental_start'', JStr ''01/01/20''), (''rental_end'', JStr ''01/03/20'')]"

text \<open>The record of the first example without its \<open>units_rented\<close>.\<close>

definition rental_no_units :: json where
  "rental_no_units = JObj
     [(''product_code'', JStr ''X''), (''price_per_day'', JInt 10),
      (''rental_start'', JStr ''01/01/20''), (''rental_end'', JStr ''01/03/20'')]"

text \<open>
  Calendar dates and the day after a date: the day difference of the specification is
  the number of such steps from the start date to the end date.
\<close>

definition calendar_date :: "date \<Rightarrow> bool" where
  "calendar_date d =
     (1 \<le> month d \<and> month d \<le> 12 \<and> 1 \<le> day d \<and> day d \<le> days_in_month (year d) (month d))"

definition next_day :: "date \<Rightarrow> date" where
  "next_day d =
     (if day d < days_in_month (year d) (month d) then d\<lparr>day := day d + 1\<rparr>
      else if month d < 12 then d\<lparr>month := month d + 1, day := 1\<rparr>
      else \<lparr>year = year d + 1, month = 1, day = 1\<rparr>)"

text \<open>The fields a record comes with, and the fields the enrichment adds.\<close>

definition BASE_FIELDS :: "string list" where
  "BASE_FIELDS = [''product_code'', ''price_per_day'', ''units_rented'', ''rental_start'', ''rental_end'']"

definition DERIVED_FIELDS :: "string list" where
  "DERIVED_FIELDS = [''total_days'', ''total_price'', ''sqrt_total_price'', ''unit_cost'']"

text \<open>
  A record with a price of zero and a start date in another format, and a batch that
  holds it before the record of the first example.
\<close>

definition rental_unpriced :: json where
  "rental_unpriced = JObj
     [(''product_code'', JStr ''X''), (''price_per_day'', JInt 0), (''units_rented'', JInt 2),
      (''rental_start'', JStr ''2020-01-01''), (''rental_end'', JStr ''01/03/20'')]"

definition batch_AB :: "(string \<times> json) list" where
  "batch_AB = [(''A'', rental_unpriced), (''B'', rental_A)]"

definition batch_AB_log :: "log_record list" where
  "batch_AB_log =
     [(DEBUG, Text ''Checking price_per_day value''),
      (WARNING, Fmt_str ''Data validation failed: {}'' ''missing price_per_day''),
      (DEBUG, Fmt SKIPPING rental_unpriced)]
     @ CHECK_LOG @ [(DEBUG, Fmt ADDED rental_A_enriched)]"






text \<open>
  The record of the first example with a start date in another format, and a batch that
  holds it between two good records.
\<close>

definition rental_bad_date :: json where
  "rental_bad_date = JObj
     [(''product_code'', JStr ''X''), (''price_per_day'', JInt 10), (''units_rented'', JInt 2),
      (''rental_start'', JStr ''2020-01-01''), (''rental_end'', JStr ''01/03/20'')]"

definition batch_ABC :: "(string \<times> json) list" where
  "batch_ABC = [(''A'', rental_A), (''B'', rental_bad_date), (''C'', rental_A)]"

text \<open>A record that passes every check, with a float price and \<open>10 ^ 400\<close> units.\<close>

definition rental_huge_units :: json where
  "rental_huge_units = JObj
     [(''product_code'', JStr ''X''), (''price_per_day'', JFloat (3 / 2)),
      (''units_rented'', JInt (10 ^ 400)),
      (''rental_start'', JStr ''01/01/20''), (''rental_end'', JStr ''01/03/20'')]"

text \<open>
  An item of the input mapping is validated when \<open>check_value_set\<close> returns true on its
  record; an item of the output mapping is enriched from an input item when it has the
  same key and its record is what the enrichment returns on the input record.
\<close>

definition validated :: "string \<times> json \<Rightarrow> bool" where
  "validated item = (fst (check_value_set (snd item)) = Inr True)"

definition enriched_from :: "string \<times> json \<Rightarrow> string \<times> json \<Rightarrow> bool" where
  "enriched_from out item =
     (fst out = fst item \<and> additional_fields (snd item) = (Inr (snd out), []))"

text \<open>A batch in which a record that fails validation stands between two good ones.\<close>

definition batch_skip :: "(string \<times> json) list" where
  "batch_skip = [(''A'', rental_A), (''B'', rental_unpriced), (''C'', rental_A)]"

definition batch_skip_log :: "log_record list" where
  "batch_skip_log =
     CHECK_LOG @ [(DEBUG, Fmt ADDED rental_A_enriched)]
     @ [(DEBUG, Text ''Checking price_per_day value''),
        (WARNING, Fmt_str ''Data validation failed: {}'' ''missing price_per_day''),
        (DEBUG, Fmt SKIPPING rental_unpriced)]
     @ CHECK_LOG @ [(DEBUG, Fmt ADDED rental_A_enriched)]"



text \<open>
  The record of the first example with the number 5 as its start date and an end date in
  another format.
\<close>

definition rental_int_start :: json where
  "rental_int_start = JObj
     [(''product_code'', JStr ''X''), (''price_per_day'', JInt 10), (''units_rented'', JInt 2),
      (''rental_start'', JInt 5), (''rental_end'', JStr ''2020-01-03'')]"

section \<open>Properties\<close>

subsection \<open>Sequencing, logging and handlers\<close>

lemma emit_Nil: "emit [] m = m"
  by (simp add: emit_def)

lemma emit_pair: "emit l (r, l') = (r, l @ l')"
  by (simp add: emit_def)
lemma emit_emit: "emit l (emit l' m) = emit (l @ l') m"
  by (simp add: emit_def)
lemma emit_if: "emit l (if b then x else y) = (if b then emit l x else emit l y)"
  by simp
lemma py_bind_lift_Inr: "py_bind (lift (Inr x)) f = f x"
  by (simp add: py_bind_def lift_def split: prod.splits)
lemma py_bind_lift_Inl: "py_bind (lift (Inl e)) f = (Inl e, [])"
  by (simp add: py_bind_def lift_def)
lemma py_bind_pair_Inr: "py_bind (Inr x, l) f = emit l (f x)"
  by (simp add: py_bind_def emit_def split: prod.splits)
lemma py_bind_pair_Inl: "py_bind (Inl e, l) f = (Inl e, l)"
  by (simp add: py_bind_def)
lemma py_bind_emit: "py_bind (emit l m) f = emit l (py_bind m f)"
  by (simp add: py_bind_def emit_def split: prod.splits sum.splits)
lemma py_seq_logger: "py_seq (logger lvl msg) n = emit [(lvl, msg)] n"
  by (simp add: py_seq_def py_bind_def logger_def emit_def split: prod.splits)
lemma py_seq_assert: "py_seq (py_assert b msg) n = (if b then n else (Inl (AssertionError msg), []))"
  by (simp add: py_seq_def py_bind_def py_assert_def py_return_def py_raise_def split: prod.splits)
lemma py_try_emit: "py_try (emit l m) h = emit l (py_try m h)"
  by (simp add: py_try_def emit_def split: prod.splits sum.splits option.splits)
lemma py_try_Inr: "py_try (Inr x, l) h = (Inr x, l)"
  by (simp add: py_try_def)
lemma py_try_Inl: "py_try (Inl e, l) h = (case h e of None \<Rightarrow> (Inl e, l) | Some n \<Rightarrow> emit l n)"
  by (simp add: py_try_def emit_def split: prod.splits option.splits)
lemma py_try_if: "py_try (if b then x else y) h = (if b then py_try x h else py_try y h)"
  by simp
lemma py_bind_if: "py_bind (if b then x else y) f = (if b then py_bind x f else py_bind y f)"
  by simp

lemmas py_simps = emit_Nil emit_pair emit_emit py_bind_lift_Inr py_bind_lift_Inl py_bind_pair_Inr
  py_bind_pair_Inl py_bind_emit py_seq_logger py_seq_assert py_try_emit py_try_Inr py_try_Inl
  py_return_def py_raise_def py_exit_def

subsection \<open>The calendar\<close>

lemma div_step:
  fixes z k :: int
  assumes "0 < k"
  shows "(z + 1) div k = z div k + (if (z + 1) mod k = 0 then 1 else 0)"
proof (cases "z mod k = k - 1")
  case True
  have "z + 1 = (z div k + 1) * k + 0"
    using div_mult_mod_eq [of z k] True by (simp add: algebra_simps)
  then have "(z + 1) div k = z div k + 1 \<and> (z + 1) mod k = 0"
    using assms by (metis add.right_neutral div_mult_self3 mod_mult_self3 div_0 mod_0 less_irrefl add.commute)
  then show ?thesis by simp
next
  case False
  have b: "0 \<le> z mod k" "z mod k < k" using assms by simp_all
  then have c: "0 \<le> z mod k + 1" "z mod k + 1 < k" using False by simp_all
  have e: "z + 1 = (z div k) * k + (z mod k + 1)"
    using div_mult_mod_eq [of z k] by simp
  have "(z + 1) div k = z div k"
    using c e by (metis div_pos_pos_trivial div_mult_self3 add.commute add.right_neutral less_irrefl assms)
  moreover have "(z + 1) mod k = z mod k + 1"
    using c e by (metis mod_pos_pos_trivial mod_mult_self3)
  moreover have "z mod k + 1 \<noteq> 0" using b by linarith
  ultimately show ?thesis by simp
qed

lemma days_before_year_step: "days_before_year (y + 1) = days_before_year y + days_in_year y"
proof -
  define a b c where "a = (y - 1) div 4" and "b = (y - 1) div 100" and "c = (y - 1) div 400"
  define p q r where "p = (4 dvd y)" and "q = (100 dvd y)" and "r = (400 dvd y)"
  have qp: "q \<Longrightarrow> p" unfolding p_def q_def by (erule dvd_trans [rotated]) simp
  have rq: "r \<Longrightarrow> q" unfolding q_def r_def by (erule dvd_trans [rotated]) simp
  have e4: "y div 4 = a + (if p then 1 else 0)"
    using div_step [of 4 "y - 1"] by (simp add: a_def p_def mod_eq_0_iff_dvd)
  have e100: "y div 100 = b + (if q then 1 else 0)"
    using div_step [of 100 "y - 1"] by (simp add: b_def q_def mod_eq_0_iff_dvd)
  have e400: "y div 400 = c + (if r then 1 else 0)"
    using div_step [of 400 "y - 1"] by (simp add: c_def r_def mod_eq_0_iff_dvd)
  have leap: "is_leap y \<longleftrightarrow> p \<and> (\<not> q \<or> r)"
    by (simp add: is_leap_def p_def q_def r_def mod_eq_0_iff_dvd)
  have d0: "days_before_year y = (y - 1) * 365 + a - b + c"
    by (simp only: days_before_year_def a_def b_def c_def)
  have "days_before_year (y + 1) = y * 365 + y div 4 - y div 100 + y div 400"
    by (simp only: days_before_year_def add_diff_cancel_right')
  then have d1: "days_before_year (y + 1) =
      y * 365 + (a + (if p then 1 else 0)) - (b + (if q then 1 else 0)) + (c + (if r then 1 else 0))"
    by (simp only: e4 e100 e400)
  show ?thesis
    unfolding d0 d1 days_in_year_def leap using qp rq
    by (cases p; cases q; cases r) (simp_all add: algebra_simps)
qed

lemma days_in_year_pos: "0 < days_in_year y"
  by (simp add: days_in_year_def)

lemma days_before_year_mono_aux:
  "days_before_year y + days_in_year y \<le> days_before_year (y + 1 + int n)"
proof (induction n)
  case 0
  show ?case by (simp add: days_before_year_step)
next
  case (Suc n)
  have "days_before_year (y + 1 + int (Suc n)) =
        days_before_year (y + 1 + int n) + days_in_year (y + 1 + int n)"
    using days_before_year_step [of "y + 1 + int n"] by (simp add: add.assoc add.commute)
  then show ?case using Suc days_in_year_pos [of "y + 1 + int n"] by linarith
qed

lemma days_before_year_less:
  assumes "y < y'"
  shows "days_before_year y + days_in_year y \<le> days_before_year y'"
proof -
  have "y' = y + 1 + int (nat (y' - y - 1))" using assms by simp
  then show ?thesis using days_before_year_mono_aux [of y "nat (y' - y - 1)"] by simp
qed

lemma month_cases:
  fixes m :: int
  assumes "1 \<le> m" "m \<le> 12"
  shows "m = 1 \<or> m = 2 \<or> m = 3 \<or> m = 4 \<or> m = 5 \<or> m = 6 \<or> m = 7 \<or> m = 8 \<or> m = 9 \<or> m = 10 \<or> m = 11 \<or> m = 12"
  using assms by arith

lemma days_before_month_step:
  assumes "1 \<le> m" "m < 12"
  shows "days_before_month y (m + 1) = days_before_month y m + days_in_month y m"
  using month_cases [of m] assms
  by (auto simp: days_before_month_def days_in_month_def DAYS_BEFORE_MONTH_def DAYS_IN_MONTH_def)

lemma days_before_month_last:
  "days_before_month y 12 + days_in_month y 12 = days_in_year y"
  by (simp add: days_before_month_def days_in_month_def DAYS_BEFORE_MONTH_def DAYS_IN_MONTH_def days_in_year_def)

lemma days_in_month_pos:
  assumes "1 \<le> m" "m \<le> 12"
  shows "28 \<le> days_in_month y m"
  using month_cases [of m] assms
  by (auto simp: days_in_month_def DAYS_IN_MONTH_def)


lemma days_before_month_mono_aux:
  assumes "1 \<le> m"
  shows "m + 1 + int n \<le> 12 \<Longrightarrow>
         days_before_month y m + days_in_month y m \<le> days_before_month y (m + 1 + int n)"
proof (induction n)
  case 0
  then show ?case using assms days_before_month_step [of m y] by simp
next
  case (Suc n)
  have "days_before_month y (m + 1 + int n + 1) =
        days_before_month y (m + 1 + int n) + days_in_month y (m + 1 + int n)"
    using Suc.prems assms by (intro days_before_month_step) simp_all
  moreover have "28 \<le> days_in_month y (m + 1 + int n)"
    using Suc.prems assms by (intro days_in_month_pos) simp_all
  moreover have "days_before_month y m + days_in_month y m \<le> days_before_month y (m + 1 + int n)"
    using Suc by simp
  ultimately show ?case by (simp add: add.assoc add.commute)
qed

lemma days_before_month_less:
  assumes "1 \<le> m" "m < m'" "m' \<le> 12"
  shows "days_before_month y m + days_in_month y m \<le> days_before_month y m'"
proof -
  have "m' = m + 1 + int (nat (m' - m - 1))" using assms by simp
  then show ?thesis
    using days_before_month_mono_aux [of m "nat (m' - m - 1)" y] assms by simp
qed

lemma days_before_month_bounds:
  assumes "1 \<le> m" "m \<le> 12"
  shows "0 \<le> days_before_month y m"
    and "days_before_month y m + days_in_month y m \<le> days_in_year y"
  using month_cases [of m] assms
  by (auto simp: days_before_month_def days_in_month_def DAYS_BEFORE_MONTH_def
      DAYS_IN_MONTH_def days_in_year_def)

lemma toordinal_mono:
  assumes a: "valid_date a" and b: "valid_date b" and le: "date_le a b"
  shows "toordinal a \<le> toordinal b"
proof -
  consider (y) "year a < year b"
    | (m) "year a = year b" "month a < month b"
    | (d) "year a = year b" "month a = month b" "day a \<le> day b"
    using le by (auto simp: date_le_def)
  then show ?thesis
  proof cases
    case y
    have "days_before_month (year a) (month a) + day a \<le> days_in_year (year a)"
      using a days_before_month_bounds(2) [of "month a" "year a"] by (simp add: valid_date_def)
    moreover have "days_before_year (year a) + days_in_year (year a) \<le> days_before_year (year b)"
      using y by (rule days_before_year_less)
    moreover have "0 \<le> days_before_month (year b) (month b)" "1 \<le> day b"
      using b days_before_month_bounds(1) [of "month b" "year b"] by (simp_all add: valid_date_def)
    ultimately show ?thesis by (simp add: toordinal_def)
  next
    case m
    have "days_before_month (year a) (month a) + days_in_month (year a) (month a)
          \<le> days_before_month (year a) (month b)"
      using a b m by (intro days_before_month_less) (simp_all add: valid_date_def)
    moreover have "day a \<le> days_in_month (year a) (month a)" "1 \<le> day b"
      using a b by (simp_all add: valid_date_def)
    ultimately show ?thesis using m by (simp add: toordinal_def)
  next
    case d
    then show ?thesis by (simp add: toordinal_def)
  qed
qed

lemma date_new_valid: "date_new y m d = Inr dt \<Longrightarrow> valid_date dt"
  by (auto simp: date_new_def valid_date_def split: if_splits)

lemma strptime_str_valid: "strptime_str s = Inr dt \<Longrightarrow> valid_date dt"
  by (auto simp: strptime_str_def split: list.splits prod.splits if_splits dest: date_new_valid)

lemma strptime_valid: "strptime x = Inr dt \<Longrightarrow> valid_date dt"
  by (auto simp: strptime_def split: json.splits dest: strptime_str_valid)

lemma days_before_year_bounds_aux:
  "0 \<le> days_before_year (1 + int n) \<and> days_before_year (1 + int n) \<le> 366 * int n"
proof (induction n)
  case 0
  show ?case by (simp add: days_before_year_def)
next
  case (Suc n)
  have "days_before_year (1 + int n + 1) = days_before_year (1 + int n) + days_in_year (1 + int n)"
    by (rule days_before_year_step)
  moreover have "0 < days_in_year (1 + int n)" "days_in_year (1 + int n) \<le> 366"
    by (simp_all add: days_in_year_def)
  ultimately show ?case using Suc by (simp add: add.assoc add.commute)
qed

lemma toordinal_bounds:
  assumes "valid_date d"
  shows "1 \<le> toordinal d" and "toordinal d \<le> 3660000"
proof -
  have y: "year d = 1 + int (nat (year d - 1))" "int (nat (year d - 1)) \<le> 9998"
    using assms by (simp_all add: valid_date_def)
  have "0 \<le> days_before_year (year d)" "days_before_year (year d) \<le> 366 * int (nat (year d - 1))"
    using days_before_year_bounds_aux [of "nat (year d - 1)"] y(1) by simp_all
  moreover have "0 \<le> days_before_month (year d) (month d)"
    "days_before_month (year d) (month d) + days_in_month (year d) (month d) \<le> days_in_year (year d)"
    using assms days_before_month_bounds [of "month d" "year d"] by (simp_all add: valid_date_def)
  moreover have "days_in_year (year d) \<le> 366" by (simp add: days_in_year_def)
  moreover have "1 \<le> day d" "day d \<le> days_in_month (year d) (month d)"
    using assms by (simp_all add: valid_date_def)
  ultimately show "1 \<le> toordinal d" and "toordinal d \<le> 3660000"
    using y(2) by (simp_all add: toordinal_def)
qed

subsection \<open>The validator\<close>

lemmas check_defs = check_value_set_def check_value_set_body_def py_simps

lemma check_value_set_passI:
  assumes "getitem v ''price_per_day'' = Inr p" "truthy p" "ge_zero p = Inr True"
    and "getitem v ''product_code'' = Inr c" "truthy c"
    and "getitem v ''rental_start'' = Inr s" "truthy s" "strptime s = Inr ds"
    and "getitem v ''rental_end'' = Inr e" "truthy e" "strptime e = Inr de"
    and "date_le ds de"
    and "getitem v ''units_rented'' = Inr u" "truthy u" "ge_zero u = Inr True"
  shows "check_value_set v =
    (Inr True,
     [(DEBUG, Text ''Checking price_per_day value''),
      (DEBUG, Text ''Checking product_code value''),
      (DEBUG, Text ''Making sure rental date values are present''),
      (DEBUG, Text ''Checking rental date values make sense''),
      (DEBUG, Text ''Checking units_rented value'')])"
  using assms by (simp add: check_defs)

lemma check_value_set_passE:
  assumes h: "fst (check_value_set v) = Inr True"
  obtains p c s e u ds de where
    "getitem v ''price_per_day'' = Inr p" "truthy p" "ge_zero p = Inr True"
    "getitem v ''product_code'' = Inr c" "truthy c"
    "getitem v ''rental_start'' = Inr s" "truthy s" "strptime s = Inr ds"
    "getitem v ''rental_end'' = Inr e" "truthy e" "strptime e = Inr de"
    "date_le ds de"
    "getitem v ''units_rented'' = Inr u" "truthy u" "ge_zero u = Inr True"
proof -
  obtain p where p: "getitem v ''price_per_day'' = Inr p"
    using h by (cases "getitem v ''price_per_day''") (simp_all add: check_defs split: exn.splits)
  have tp: "truthy p"
    using h p by (cases "truthy p") (simp_all add: check_defs)
  obtain bp where bp: "ge_zero p = Inr bp"
    using h p tp by (cases "ge_zero p") (simp_all add: check_defs split: exn.splits)
  have gp: "bp" using h p tp bp by (cases bp) (simp_all add: check_defs)
  obtain c where c: "getitem v ''product_code'' = Inr c"
    using h p tp bp gp by (cases "getitem v ''product_code''") (simp_all add: check_defs split: exn.splits)
  have tc: "truthy c"
    using h p tp bp gp c by (cases "truthy c") (simp_all add: check_defs)
  obtain s where s: "getitem v ''rental_start'' = Inr s"
    using h p tp bp gp c tc by (cases "getitem v ''rental_start''") (simp_all add: check_defs split: exn.splits)
  have ts: "truthy s"
    using h p tp bp gp c tc s by (cases "truthy s") (simp_all add: check_defs)
  obtain e where e: "getitem v ''rental_end'' = Inr e"
    using h p tp bp gp c tc s ts by (cases "getitem v ''rental_end''") (simp_all add: check_defs split: exn.splits)
  have te: "truthy e"
    using h p tp bp gp c tc s ts e by (cases "truthy e") (simp_all add: check_defs)
  obtain ds where ds: "strptime s = Inr ds"
    using h p tp bp gp c tc s ts e te by (cases "strptime s") (simp_all add: check_defs split: exn.splits)
  obtain de where de: "strptime e = Inr de"
    using h p tp bp gp c tc s ts e te ds by (cases "strptime e") (simp_all add: check_defs split: exn.splits)
  have le: "date_le ds de"
    using h p tp bp gp c tc s ts e te ds de by (cases "date_le ds de") (simp_all add: check_defs)
  obtain u where u: "getitem v ''units_rented'' = Inr u"
    using h p tp bp gp c tc s ts e te ds de le
    by (cases "getitem v ''units_rented''") (simp_all add: check_defs split: exn.splits)
  have tu: "truthy u"
    using h p tp bp gp c tc s ts e te ds de le u by (cases "truthy u") (simp_all add: check_defs)
  obtain bu where bu: "ge_zero u = Inr bu"
    using h p tp bp gp c tc s ts e te ds de le u tu
    by (cases "ge_zero u") (simp_all add: check_defs split: exn.splits)
  have gu: "bu"
    using h p tp bp gp c tc s ts e te ds de le u tu bu by (cases bu) (simp_all add: check_defs)
  show thesis
    using that [OF p tp _ c tc s ts ds e te de le u tu] bp gp bu gu by simp
qed


subsection \<open>Arithmetic on validated values\<close>

lemma getitem_InrD:
  assumes "getitem v k = Inr x"
  obtains kvs where "v = JObj kvs" "map_of kvs k = Some x"
  using assms by (cases v) (auto split: option.splits)

lemma ge_zero_TrueE:
  assumes "ge_zero x = Inr True"
  obtains (int) i where "as_num x = Some (NInt i)" "0 \<le> i"
        | (float) r where "as_num x = Some (NFloat r)" "0 \<le> r"
  using assms by (auto simp: ge_zero_def split: option.splits num.splits)

lemma as_num_SomeE:
  assumes "as_num x = Some n"
  obtains b where "x = JBool b" | i where "x = JInt i" | r where "x = JFloat r"
  using assms by (cases x) auto

lemma truthy_num:
  assumes "truthy x"
  shows "as_num x = Some (NInt i) \<Longrightarrow> i \<noteq> 0" and "as_num x = Some (NFloat r) \<Longrightarrow> r \<noteq> 0"
  using assms by (cases x; auto split: if_splits)+

lemma int_mul_num:
  "as_num x = Some (NInt i) \<Longrightarrow> int_mul n x = Inr (JInt (n * i))"
  "as_num x = Some (NFloat r) \<Longrightarrow>
     int_mul n x = (case to_float n of Inl e \<Rightarrow> Inl e | Inr f \<Rightarrow> Inr (JFloat (f * r)))"
  by (cases x; simp add: int_mul_def)+

lemma float_overflow_big: "3660000 < float_overflow"
  by (simp add: float_overflow_def)

lemma mul_validated:
  assumes "0 \<le> n" "n \<le> 3660000" "ge_zero p = Inr True"
  obtains k where "mul (JInt n) p = Inr (JInt k)" "0 \<le> k"
        | x where "mul (JInt n) p = Inr (JFloat x)" "0 \<le> x"
proof (cases rule: ge_zero_TrueE [OF assms(3)])
  case (1 i)
  then have "mul (JInt n) p = Inr (JInt (n * i))" "0 \<le> n * i"
    using assms by (simp_all add: mul_def int_mul_num)
  then show ?thesis using that by blast
next
  case (2 r)
  have "to_float n = Inr (real_of_int n)"
    using assms float_overflow_big by (simp add: to_float_def)
  then have "mul (JInt n) p = Inr (JFloat (real_of_int n * r))" "0 \<le> real_of_int n * r"
    using 2 assms by (simp_all add: mul_def int_mul_num)
  then show ?thesis using that by blast
qed


lemma math_sqrt_int:
  assumes "0 \<le> k"
  shows "math_sqrt (JInt k) =
    (if float_overflow \<le> k then Inl OverflowError else Inr (JFloat (sqrt (real_of_int k))))"
  using assms by (simp add: math_sqrt_def to_float_def)

lemma math_sqrt_float:
  assumes "0 \<le> x"
  shows "math_sqrt (JFloat x) = Inr (JFloat (sqrt x))"
  using assms by (simp add: math_sqrt_def)

lemma quotient_below:
  fixes k j :: int
  assumes "0 \<le> k" "k < b" "0 < j"
  shows "\<bar>real_of_int k / real_of_int j\<bar> < real_of_int b"
proof -
  have "real_of_int k / real_of_int j \<le> real_of_int k"
    using assms by (simp add: divide_le_eq mult_le_cancel_left1)
  moreover have "0 \<le> real_of_int k / real_of_int j" using assms by simp
  ultimately show ?thesis using assms by simp
qed

lemma truediv_int_validated:
  assumes "0 \<le> k" "k < float_overflow" "truthy u" "ge_zero u = Inr True"
  obtains r where "truediv (JInt k) u = Inr (JFloat r)"
proof (cases rule: ge_zero_TrueE [OF assms(4)])
  case (1 j)
  then have j: "0 < j" using truthy_num(1) [OF assms(3), of j] by simp
  have "\<not> real_of_int float_overflow \<le> \<bar>real_of_int k / real_of_int j\<bar>"
    using quotient_below [OF assms(1,2) j] by simp
  then have "truediv (JInt k) u = Inr (JFloat (real_of_int k / real_of_int j))"
    using 1 j by (simp add: truediv_def)
  then show ?thesis by (rule that)
next
  case (2 r)
  then have r: "r \<noteq> 0" using truthy_num(2) [OF assms(3), of r] by simp
  have "to_float k = Inr (real_of_int k)" using assms by (simp add: to_float_def)
  then have "truediv (JInt k) u = Inr (JFloat (real_of_int k / r))"
    using 2 r by (simp add: truediv_def)
  then show ?thesis by (rule that)
qed

lemma truediv_float_validated:
  assumes "truthy u" "ge_zero u = Inr True"
  obtains r where "truediv (JFloat x) u = Inr (JFloat r)"
        | "truediv (JFloat x) u = Inl OverflowError"
proof (cases rule: ge_zero_TrueE [OF assms(2)])
  case (1 j)
  then have j: "j \<noteq> 0" using truthy_num(1) [OF assms(1), of j] by simp
  show ?thesis
  proof (cases "float_overflow \<le> \<bar>j\<bar>")
    case True
    then have "truediv (JFloat x) u = Inl OverflowError"
      using 1 by (simp add: truediv_def to_float_def)
    then show ?thesis by (rule that(2))
  next
    case False
    then have "truediv (JFloat x) u = Inr (JFloat (x / real_of_int j))"
      using 1 j by (simp add: truediv_def to_float_def)
    then show ?thesis by (rule that(1))
  qed
next
  case (2 r)
  then have r: "r \<noteq> 0" using truthy_num(2) [OF assms(1), of r] by simp
  have "truediv (JFloat x) u = Inr (JFloat (x / r))"
    using 2 r by (simp add: truediv_def)
  then show ?thesis by (rule that(1))
qed

lemma additional_fields_unfold:
  assumes "map_of kvs ''rental_start'' = Some s" "strptime s = Inr ds"
    and "map_of kvs ''rental_end'' = Some e" "strptime e = Inr de"
    and "map_of kvs ''price_per_day'' = Some p"
    and "map_of kvs ''units_rented'' = Some u"
  shows "additional_fields (JObj kvs) =
    (case mul (JInt (days_between de ds)) p of
       Inl x \<Rightarrow> (Inl x, [])
     | Inr tp \<Rightarrow>
        (case math_sqrt tp of
           Inl x \<Rightarrow> (Inl x, [])
         | Inr sq \<Rightarrow>
            (case truediv tp u of
               Inl x \<Rightarrow> (Inl x, [])
             | Inr uc \<Rightarrow>
                (Inr (JObj (AList.update ''unit_cost'' uc
                       (AList.update ''sqrt_total_price'' sq
                         (AList.update ''total_price'' tp
                           (AList.update ''total_days'' (JInt (days_between de ds)) kvs))))),
                 []))))"
  using assms
  by (simp add: additional_fields_def assign_total_days_def assign_price_fields_def py_simps
      update_conv' split: sum.splits)


subsection \<open>Enrichment of a validated record\<close>

lemma validated_span:
  assumes "strptime s = Inr ds" "strptime e = Inr de" "date_le ds de"
  shows "0 \<le> days_between de ds" and "days_between de ds \<le> 3660000"
proof -
  have v: "valid_date ds" "valid_date de"
    using assms by (auto dest: strptime_valid)
  have "toordinal ds \<le> toordinal de"
    using v assms(3) by (rule toordinal_mono)
  then show "0 \<le> days_between de ds" by (simp add: days_between_def)
  show "days_between de ds \<le> 3660000"
    using toordinal_bounds [OF v(1)] toordinal_bounds [OF v(2)] by (simp add: days_between_def)
qed

lemma enrich_validated:
  assumes "map_of kvs ''rental_start'' = Some s" "strptime s = Inr ds"
    and "map_of kvs ''rental_end'' = Some e" "strptime e = Inr de"
    and "date_le ds de"
    and "map_of kvs ''price_per_day'' = Some p" "ge_zero p = Inr True"
    and "map_of kvs ''units_rented'' = Some u" "truthy u" "ge_zero u = Inr True"
  obtains (ok) tp sq uc where
      "mul (JInt (days_between de ds)) p = Inr tp" "math_sqrt tp = Inr sq" "truediv tp u = Inr uc"
      "ge_zero tp = Inr True"
      "additional_fields (JObj kvs) =
        (Inr (JObj (AList.update ''unit_cost'' uc
               (AList.update ''sqrt_total_price'' sq
                 (AList.update ''total_price'' tp
                   (AList.update ''total_days'' (JInt (days_between de ds)) kvs))))), [])"
    | (overflow) "additional_fields (JObj kvs) = (Inl OverflowError, [])"
proof -
  note unfold = additional_fields_unfold [OF assms(1-4,6,8)]
  note span = validated_span [OF assms(2,4,5)]
  show thesis
  proof (cases rule: mul_validated [OF span assms(7)])
    case (1 k)
    show ?thesis
    proof (cases "float_overflow \<le> k")
      case True
      then have "additional_fields (JObj kvs) = (Inl OverflowError, [])"
        using 1 by (simp add: unfold math_sqrt_int)
      then show ?thesis by (rule overflow)
    next
      case False
      then have sq: "math_sqrt (JInt k) = Inr (JFloat (sqrt (real_of_int k)))"
        using 1 by (simp add: math_sqrt_int)
      from False have "k < float_overflow" by simp
      from truediv_int_validated [OF 1(2) this assms(9,10)]
      obtain r where r: "truediv (JInt k) u = Inr (JFloat r)" .
      have g: "ge_zero (JInt k) = Inr True" using 1 by (simp add: ge_zero_def)
      show ?thesis
        by (rule ok [OF 1(1) sq r g]) (simp add: unfold 1 sq r)
    qed
  next
    case (2 x)
    have sq: "math_sqrt (JFloat x) = Inr (JFloat (sqrt x))"
      using 2 by (simp add: math_sqrt_float)
    have g: "ge_zero (JFloat x) = Inr True" using 2 by (simp add: ge_zero_def)
    show ?thesis
    proof (cases rule: truediv_float_validated [OF assms(9,10), of x])
      case (1 r)
      show ?thesis
        by (rule ok [OF 2(1) sq 1 g]) (simp add: unfold 2 sq 1)
    next
      case o: 2
      have "additional_fields (JObj kvs) = (Inl OverflowError, [])"
        by (simp add: unfold 2 sq o)
      then show ?thesis by (rule overflow)
    qed
  qed
qed

lemma enrichment_outcomes:
  assumes "fst (check_value_set v) = Inr True"
  obtains (ok) v' where "additional_fields v = (Inr v', [])"
        | (overflow) "additional_fields v = (Inl OverflowError, [])"
proof -
  from assms obtain p c s e u ds de where h:
    "getitem v ''price_per_day'' = Inr p" "truthy p" "ge_zero p = Inr True"
    "getitem v ''product_code'' = Inr c" "truthy c"
    "getitem v ''rental_start'' = Inr s" "truthy s" "strptime s = Inr ds"
    "getitem v ''rental_end'' = Inr e" "truthy e" "strptime e = Inr de"
    "date_le ds de"
    "getitem v ''units_rented'' = Inr u" "truthy u" "ge_zero u = Inr True"
    by (rule check_value_set_passE)
  from h(1) obtain kvs where v: "v = JObj kvs"
    by (rule getitem_InrD)
  have m: "map_of kvs ''rental_start'' = Some s" "map_of kvs ''rental_end'' = Some e"
    "map_of kvs ''price_per_day'' = Some p" "map_of kvs ''units_rented'' = Some u"
    using h(1,6,9,13) unfolding v by (auto split: option.splits)
  show thesis
    by (cases rule: enrich_validated [OF m(1) h(8) m(2) h(11) h(12) m(3) h(3) m(4) h(14) h(15)])
       (simp_all add: v ok overflow)
qed


subsection \<open>End-to-end example 1\<close>

lemma strptime_010120: "strptime (JStr ''01/01/20'') = Inr \<lparr>year = 2020, month = 1, day = 1\<rparr>"
  unfolding strptime_def by (simp, code_simp)

lemma strptime_010320: "strptime (JStr ''01/03/20'') = Inr \<lparr>year = 2020, month = 1, day = 3\<rparr>"
  unfolding strptime_def by (simp, code_simp)

lemma span_A: "days_between \<lparr>year = 2020, month = 1, day = 3\<rparr> \<lparr>year = 2020, month = 1, day = 1\<rparr> = 2"
  by (simp add: days_between_def toordinal_def)

lemma rental_A_check: "check_value_set rental_A = (Inr True, CHECK_LOG)"
  by (simp add: rental_A_def CHECK_LOG_def check_defs ge_zero_def strptime_010120
      strptime_010320 date_le_def)

lemma rental_A_fields: "additional_fields rental_A = (Inr rental_A_enriched, [])"
  unfolding rental_A_def rental_A_enriched_def
  by (subst additional_fields_unfold [where s = "JStr ''01/01/20''" and e = "JStr ''01/03/20''"
        and ds = "\<lparr>year = 2020, month = 1, day = 1\<rparr>"
        and de = "\<lparr>year = 2020, month = 1, day = 3\<rparr>"
        and p = "JInt 10" and u = "JInt 2"])
     (simp_all add: strptime_010120 strptime_010320 span_A mul_def int_mul_def
        math_sqrt_def to_float_def float_overflow_def truediv_def)

lemma sqrt_20: "4.47 < sqrt 20" "sqrt 20 < 4.48"
proof -
  show "4.47 < sqrt 20" by (rule real_less_rsqrt) (simp add: power2_eq_square)
  show "sqrt 20 < 4.48" by (rule real_less_lsqrt) (simp_all add: power2_eq_square)
qed

text \<open>
  Claim C4. For the input mapping with the single key \<open>A\<close> and the record
  \<open>rental_A\<close>, the batch returns a mapping that holds \<open>A\<close> with
  \<open>total_days = 2\<close>, \<open>total_price = 20\<close>, \<open>sqrt_total_price\<close> the square root of 20
  (between 4.47 and 4.48) and \<open>unit_cost = 10\<close>.
\<close>

theorem end_to_end_example_1:
  "fst (calculate_additional_fields (JObj [(''A'', rental_A)])) = Inr [(''A'', rental_A_enriched)]
   \<and> getitem rental_A_enriched ''total_days'' = Inr (JInt 2)
   \<and> getitem rental_A_enriched ''total_price'' = Inr (JInt 20)
   \<and> getitem rental_A_enriched ''sqrt_total_price'' = Inr (JFloat (sqrt 20))
   \<and> 4.47 < sqrt 20 \<and> sqrt 20 < 4.48
   \<and> getitem rental_A_enriched ''unit_cost'' = Inr (JFloat 10)"
proof -
  have "calculate_additional_fields (JObj [(''A'', rental_A)]) =
        (Inr [(''A'', rental_A_enriched)], CHECK_LOG @ [(DEBUG, Fmt ADDED rental_A_enriched)])"
    by (simp add: calculate_additional_fields_def loop_body_def rental_A_check rental_A_fields
        py_simps)
  moreover have "getitem rental_A_enriched ''total_days'' = Inr (JInt 2)"
    "getitem rental_A_enriched ''total_price'' = Inr (JInt 20)"
    "getitem rental_A_enriched ''sqrt_total_price'' = Inr (JFloat (sqrt 20))"
    "getitem rental_A_enriched ''unit_cost'' = Inr (JFloat 10)"
    by (simp_all add: rental_A_enriched_def)
  ultimately show ?thesis using sqrt_20 by simp
qed

subsection \<open>A record with a huge price\<close>

lemma rental_huge_check: "check_value_set rental_huge = (Inr True, CHECK_LOG)"
  by (simp add: rental_huge_def CHECK_LOG_def check_defs ge_zero_def strptime_010120
      strptime_010320 date_le_def)

lemma rental_huge_fields: "additional_fields rental_huge = (Inl OverflowError, [])"
  unfolding rental_huge_def
  by (subst additional_fields_unfold [where s = "JStr ''01/01/20''" and e = "JStr ''01/03/20''"
        and ds = "\<lparr>year = 2020, month = 1, day = 1\<rparr>"
        and de = "\<lparr>year = 2020, month = 1, day = 3\<rparr>"
        and p = "JInt (10 ^ 400)" and u = "JInt 2"])
     (simp_all add: strptime_010120 strptime_010320 span_A mul_def int_mul_def
        math_sqrt_def to_float_def float_overflow_def)

subsection \<open>A record without units\_rented\<close>

lemma rental_no_units_check:
  "check_value_set rental_no_units =
     (Inl (KeyError ''units_rented''), CHECK_LOG)"
  by (simp add: rental_no_units_def CHECK_LOG_def check_defs ge_zero_def strptime_010120
      strptime_010320 date_le_def)

text \<open>
  Claim C1 at a record that lacks \<open>units_rented\<close>: the lookup raises \<^verbatim>\<open>KeyError\<close>, which
  neither the validator nor the batch catches, so the validator does not return false and
  the run ends with the exception and no file written.
\<close>

theorem missing_key_raises:
  "fst (check_value_set rental_no_units) = Inl (KeyError ''units_rented'')
   \<and> fst (calculate_additional_fields (JObj [(''A'', rental_no_units), (''B'', rental_A)]))
       = Inl (KeyError ''units_rented'')
   \<and> main [''in.json'' \<mapsto> Json_text (JObj [(''A'', rental_no_units), (''B'', rental_A)]) 2]
          ''in.json'' ''out.json''
       = ([''in.json'' \<mapsto> Json_text (JObj [(''A'', rental_no_units), (''B'', rental_A)]) 2],
          (Inl (KeyError ''units_rented''), CHECK_LOG))"
proof -
  have c: "calculate_additional_fields (JObj [(''A'', rental_no_units), (''B'', rental_A)])
        = (Inl (KeyError ''units_rented''), CHECK_LOG)"
    by (simp add: calculate_additional_fields_def loop_body_def rental_no_units_check py_simps)
  have l: "load_rentals_file
             [''in.json'' \<mapsto> Json_text (JObj [(''A'', rental_no_units), (''B'', rental_A)]) 2]
             ''in.json''
           = (Inr (JObj [(''A'', rental_no_units), (''B'', rental_A)]), [])"
    by (simp add: load_rentals_file_def json_load_def lift_def py_simps)
  show ?thesis
    by (simp add: rental_no_units_check c main_def l)
qed

subsection \<open>A missing input file\<close>

text \<open>
  Claim C7 at a path with no file: \<^verbatim>\<open>open\<close> raises \<^verbatim>\<open>FileNotFoundError\<close> before the
  \<^verbatim>\<open>try\<close> statement is entered, so the handler that logs the error never runs; the run
  ends with the exception, no log record and no file written.
\<close>

theorem missing_file_not_logged:
  "load_rentals_file Map.empty ''rentals.json'' = (Inl (FileNotFoundError ''rentals.json''), [])
   \<and> main Map.empty ''rentals.json'' ''out.json''
       = (Map.empty, (Inl (FileNotFoundError ''rentals.json''), []))"
  by (simp add: load_rentals_file_def main_def py_simps)

subsection \<open>The output sink\<close>

text \<open>
  Claim C6. Handed an empty mapping, \<open>save_to_json\<close> logs a warning and leaves the files as
  they are; handed a non-empty mapping, it writes the mapping to the destination path as
  JSON with an indent of 2.
\<close>

theorem save_to_json_sink:
  "(cleaned = [] \<longrightarrow>
      save_to_json fs filename (JObj cleaned) =
        (fs, (Inr (), [(WARNING, Text ''Data is invalid. Skipping file writing'')])))
   \<and> (cleaned \<noteq> [] \<longrightarrow>
      save_to_json fs filename (JObj cleaned) =
        (fs(filename \<mapsto> Json_text (JObj cleaned) 2),
         (Inr (), [(DEBUG, Fmt_str ''Saving file %s'' filename)])))"
  by (simp add: save_to_json_def logger_def)

theorem save_to_json_sink_witness:
  "save_to_json Map.empty ''out.json'' (JObj []) =
     (Map.empty, (Inr (), [(WARNING, Text ''Data is invalid. Skipping file writing'')]))
   \<and> save_to_json Map.empty ''out.json'' (JObj [(''A'', rental_A_enriched)]) =
     ([''out.json'' \<mapsto> Json_text (JObj [(''A'', rental_A_enriched)]) 2],
      (Inr (), [(DEBUG, Fmt_str ''Saving file %s'' ''out.json'')]))"
  using save_to_json_sink [of "[]" Map.empty "''out.json''"]
    save_to_json_sink [of "[(''A'', rental_A_enriched)]" Map.empty "''out.json''"]
  by simp

subsection \<open>Stepping through the calendar\<close>

lemma valid_calendar_date: "valid_date d \<Longrightarrow> calendar_date d"
  by (simp add: valid_date_def calendar_date_def)

lemma next_day_calendar:
  assumes "calendar_date d"
  shows "calendar_date (next_day d)"
proof -
  have "1 \<le> days_in_month (year d) (month d + 1)" if "month d < 12"
    using days_in_month_pos [of "month d + 1" "year d"] assms that
    by (simp add: calendar_date_def)
  moreover have "1 \<le> days_in_month (year d + 1) 1"
    using days_in_month_pos [of 1 "year d + 1"] by simp
  ultimately show ?thesis
    using assms by (simp add: calendar_date_def next_day_def)
qed

lemma toordinal_next_day:
  assumes "calendar_date d"
  shows "toordinal (next_day d) = toordinal d + 1"
proof -
  consider (d) "day d < days_in_month (year d) (month d)"
    | (m) "day d = days_in_month (year d) (month d)" "month d < 12"
    | (y) "day d = days_in_month (year d) (month d)" "month d = 12"
    using assms unfolding calendar_date_def by atomize_elim linarith
  then show ?thesis
  proof cases
    case d
    then show ?thesis by (simp add: next_day_def toordinal_def)
  next
    case m
    then show ?thesis
      using assms days_before_month_step [of "month d" "year d"]
      by (simp add: next_day_def toordinal_def calendar_date_def)
  next
    case y
    have "days_before_month (year d + 1) 1 = 0"
      by (simp add: days_before_month_def DAYS_BEFORE_MONTH_def)
    then show ?thesis
      using y days_before_month_last [of "year d"] days_before_year_step [of "year d"]
      by (simp add: next_day_def toordinal_def)
  qed
qed

lemma funpow_next_day:
  assumes "calendar_date d"
  shows "calendar_date ((next_day ^^ n) d) \<and> toordinal ((next_day ^^ n) d) = toordinal d + int n"
  by (induction n) (simp_all add: assms next_day_calendar toordinal_next_day)

lemma toordinal_less_year:
  assumes "calendar_date a" "calendar_date b" "year a < year b"
  shows "toordinal a < toordinal b"
proof -
  have "days_before_month (year a) (month a) + day a \<le> days_in_year (year a)"
    using assms(1) days_before_month_bounds(2) [of "month a" "year a"]
    by (simp add: calendar_date_def)
  moreover have "days_before_year (year a) + days_in_year (year a) \<le> days_before_year (year b)"
    using assms(3) by (rule days_before_year_less)
  moreover have "0 \<le> days_before_month (year b) (month b)" "1 \<le> day b"
    using assms(2) days_before_month_bounds(1) [of "month b" "year b"]
    by (simp_all add: calendar_date_def)
  ultimately show ?thesis by (simp add: toordinal_def)
qed

lemma toordinal_less_month:
  assumes "calendar_date a" "calendar_date b" "year a = year b" "month a < month b"
  shows "toordinal a < toordinal b"
proof -
  have "days_before_month (year a) (month a) + days_in_month (year a) (month a)
        \<le> days_before_month (year a) (month b)"
    using assms by (intro days_before_month_less) (simp_all add: calendar_date_def)
  moreover have "day a \<le> days_in_month (year a) (month a)" "1 \<le> day b"
    using assms by (simp_all add: calendar_date_def)
  ultimately show ?thesis using assms(3) by (simp add: toordinal_def)
qed

lemma toordinal_inj:
  assumes "calendar_date a" "calendar_date b" "toordinal a = toordinal b"
  shows "a = b"
proof -
  have y: "year a = year b"
    using toordinal_less_year [OF assms(1,2)] toordinal_less_year [OF assms(2,1)] assms(3)
    by (cases "year a < year b"; cases "year b < year a") simp_all
  have m: "month a = month b"
    using toordinal_less_month [OF assms(1,2) y] toordinal_less_month [OF assms(2,1) y [symmetric]]
      assms(3)
    by (cases "month a < month b"; cases "month b < month a") simp_all
  have "day a = day b"
    using assms(3) y m by (simp add: toordinal_def)
  then show ?thesis using y m by simp
qed

lemma days_between_steps:
  assumes "calendar_date a" "calendar_date b" "toordinal a \<le> toordinal b"
  shows "(next_day ^^ nat (days_between b a)) a = b"
proof -
  let ?n = "nat (days_between b a)"
  have "calendar_date ((next_day ^^ ?n) a)" "toordinal ((next_day ^^ ?n) a) = toordinal b"
    using funpow_next_day [OF assms(1), of ?n] assms(3) by (simp_all add: days_between_def)
  then show ?thesis using assms(2) by (intro toordinal_inj)
qed

subsection \<open>Enrichment reads only the base fields\<close>

text \<open>
  Claim C9. Let a record pass validation and be enriched. Enriching again any record with
  the same base fields, whatever derived fields it already carries, passes validation and
  yields the same \<open>total_days\<close>, \<open>total_price\<close>, \<open>sqrt_total_price\<close> and \<open>unit_cost\<close>;
  the enriched record itself is such a record, since enrichment leaves the base fields as
  they were.
\<close>

theorem enrichment_idempotent:
  assumes "fst (check_value_set v) = Inr True" and "additional_fields v = (Inr v', l)"
    and "\<forall>k \<in> set BASE_FIELDS. getitem w k = getitem v k"
  shows "fst (check_value_set w) = Inr True
       \<and> (\<exists>w'. additional_fields w = (Inr w', [])
              \<and> (\<forall>k \<in> set DERIVED_FIELDS. getitem w' k = getitem v' k))
       \<and> (\<forall>k \<in> set BASE_FIELDS. getitem v' k = getitem v k)"
proof -
  from assms(1) obtain p c s e u ds de where h:
    "getitem v ''price_per_day'' = Inr p" "truthy p" "ge_zero p = Inr True"
    "getitem v ''product_code'' = Inr c" "truthy c"
    "getitem v ''rental_start'' = Inr s" "truthy s" "strptime s = Inr ds"
    "getitem v ''rental_end'' = Inr e" "truthy e" "strptime e = Inr de"
    "date_le ds de"
    "getitem v ''units_rented'' = Inr u" "truthy u" "ge_zero u = Inr True"
    by (rule check_value_set_passE)
  have g: "getitem w ''price_per_day'' = Inr p" "getitem w ''product_code'' = Inr c"
    "getitem w ''rental_start'' = Inr s" "getitem w ''rental_end'' = Inr e"
    "getitem w ''units_rented'' = Inr u"
    using assms(3) h(1,4,6,9,13) by (simp_all add: BASE_FIELDS_def)
  have pass: "fst (check_value_set w) = Inr True"
    using check_value_set_passI [OF g(1) h(2,3) g(2) h(5) g(3) h(7,8) g(4) h(10,11,12) g(5) h(14,15)]
    by simp
  from h(1) obtain kvs where v: "v = JObj kvs" by (rule getitem_InrD)
  from g(1) obtain kws where w: "w = JObj kws" by (rule getitem_InrD)
  have m: "map_of kvs ''rental_start'' = Some s" "map_of kvs ''rental_end'' = Some e"
    "map_of kvs ''price_per_day'' = Some p" "map_of kvs ''units_rented'' = Some u"
    using h(1,6,9,13) unfolding v by (auto split: option.splits)
  have n: "map_of kws ''rental_start'' = Some s" "map_of kws ''rental_end'' = Some e"
    "map_of kws ''price_per_day'' = Some p" "map_of kws ''units_rented'' = Some u"
    using g(1,3,4,5) unfolding w by (auto split: option.splits)
  show ?thesis
  proof (cases rule: enrich_validated [OF m(1) h(8) m(2) h(11) h(12) m(3) h(3) m(4) h(14) h(15)])
    case ok: (1 tp sq uc)
    have v': "v' = JObj (AList.update ''unit_cost'' uc
                 (AList.update ''sqrt_total_price'' sq
                   (AList.update ''total_price'' tp
                     (AList.update ''total_days'' (JInt (days_between de ds)) kvs))))"
      using assms(2) ok(5) by (simp add: v)
    have w': "additional_fields w =
        (Inr (JObj (AList.update ''unit_cost'' uc
                 (AList.update ''sqrt_total_price'' sq
                   (AList.update ''total_price'' tp
                     (AList.update ''total_days'' (JInt (days_between de ds)) kws))))), [])"
      unfolding w
      by (simp add: additional_fields_unfold [OF n(1) h(8) n(2) h(11) n(3) n(4)] ok(1,2,3))
    have derived: "\<forall>k \<in> set DERIVED_FIELDS.
        getitem (JObj (AList.update ''unit_cost'' uc
                 (AList.update ''sqrt_total_price'' sq
                   (AList.update ''total_price'' tp
                     (AList.update ''total_days'' (JInt (days_between de ds)) kws))))) k
        = getitem v' k"
      by (simp add: DERIVED_FIELDS_def v' update_conv')
    have base: "\<forall>k \<in> set BASE_FIELDS. getitem v' k = getitem v k"
      by (simp add: BASE_FIELDS_def v' v update_conv')
    show ?thesis using pass w' derived base by simp
  next
    case 2
    then show ?thesis using assms(2) by (simp add: v)
  qed
qed

theorem enrichment_idempotent_witness:
  "fst (check_value_set rental_A) = Inr True
   \<and> additional_fields rental_A = (Inr rental_A_enriched, [])
   \<and> getitem rental_A_enriched ''product_code'' = getitem rental_A ''product_code''
   \<and> getitem rental_A_enriched ''price_per_day'' = getitem rental_A ''price_per_day''
   \<and> getitem rental_A_enriched ''units_rented'' = getitem rental_A ''units_rented''
   \<and> getitem rental_A_enriched ''rental_start'' = getitem rental_A ''rental_start''
   \<and> getitem rental_A_enriched ''rental_end'' = getitem rental_A ''rental_end''
   \<and> fst (check_value_set rental_A_enriched) = Inr True
   \<and> (\<exists>w'. additional_fields rental_A_enriched = (Inr w', [])
          \<and> getitem w' ''total_days'' = getitem rental_A_enriched ''total_days''
          \<and> getitem w' ''total_price'' = getitem rental_A_enriched ''total_price''
          \<and> getitem w' ''sqrt_total_price'' = getitem rental_A_enriched ''sqrt_total_price''
          \<and> getitem w' ''unit_cost'' = getitem rental_A_enriched ''unit_cost'')"
proof -
  have h: "fst (check_value_set rental_A) = Inr True" by (simp add: rental_A_check)
  have b: "\<forall>k \<in> set BASE_FIELDS. getitem rental_A_enriched k = getitem rental_A k"
    by (simp add: BASE_FIELDS_def rental_A_enriched_def rental_A_def)
  show ?thesis
    using h rental_A_fields b enrichment_idempotent [OF h rental_A_fields b]
    by (simp add: BASE_FIELDS_def DERIVED_FIELDS_def)
qed

subsection \<open>The batch loop\<close>

lemma py_bind_InrD:
  assumes "py_bind m f = (Inr y, l)"
  obtains x l1 l2 where "m = (Inr x, l1)" "f x = (Inr y, l2)" "l = l1 @ l2"
  using assms by (auto simp: py_bind_def split: prod.splits sum.splits)

lemma loop_body_InrD:
  assumes "loop_body key v acc = (Inr acc', l)"
  obtains (skip) "fst (check_value_set v) = Inr False" "acc' = acc"
        | (add) v' where "fst (check_value_set v) = Inr True"
            "additional_fields v = (Inr v', [])" "acc' = AList.update key v' acc"
proof -
  obtain r lc where c: "check_value_set v = (r, lc)" by (cases "check_value_set v")
  show thesis
  proof (cases r)
    case (Inl e)
    then have False
      using assms c by (cases e) (simp_all add: loop_body_def py_simps)
    then show ?thesis ..
  next
    case (Inr b)
    show ?thesis
    proof (cases b)
      case False
      then have "acc' = acc"
        using assms c Inr by (simp add: loop_body_def py_simps)
      then show ?thesis using skip c Inr False by simp
    next
      case True
      from assms(1) have h: "fst (check_value_set v) = Inr True" using c Inr True by simp
      show ?thesis
      proof (cases rule: enrichment_outcomes [OF h])
        case (1 v')
        then have "acc' = AList.update key v' acc"
          using assms c Inr True by (simp add: loop_body_def py_simps)
        then show ?thesis using add h 1 by simp
      next
        case 2
        then have False
          using assms c Inr True by (simp add: loop_body_def py_simps)
        then show ?thesis ..
      qed
    qed
  qed
qed

lemma update_fresh:
  "k \<notin> fst ` set al \<Longrightarrow> AList.update k v al = al @ [(k, v)]"
  by (induction al) auto

lemma set_update_subset: "set (AList.update k v al) \<subseteq> insert (k, v) (set al)"
  by (induction al) auto

lemma calc_loop_keys:
  assumes "calc_loop items acc = (Inr cleaned, l)"
    and "distinct (map fst acc @ map fst items)"
  shows "\<exists>ks. map fst cleaned = map fst acc @ ks \<and> subseq ks (map fst items)"
  using assms
proof (induction items arbitrary: acc l)
  case Nil
  then show ?case by (simp add: py_return_def)
next
  case (Cons item items)
  obtain key v where item: "item = (key, v)" by (cases item)
  from Cons.prems(1) obtain acc' l1 l2 where
    b: "loop_body key v acc = (Inr acc', l1)" and r: "calc_loop items acc' = (Inr cleaned, l2)"
    unfolding item by (auto elim: py_bind_InrD)
  from b show ?case
  proof (cases rule: loop_body_InrD)
    case skip
    have "distinct (map fst acc' @ map fst items)"
      using Cons.prems(2) skip by (simp add: item)
    from Cons.IH [OF r this] obtain ks where
      "map fst cleaned = map fst acc' @ ks" "subseq ks (map fst items)" by blast
    then show ?thesis using skip by (auto simp: item)
  next
    case (add v')
    have fresh: "key \<notin> fst ` set acc" using Cons.prems(2) by (auto simp: item)
    then have acc': "acc' = acc @ [(key, v')]" using add by (simp add: update_fresh)
    have "distinct (map fst acc' @ map fst items)"
      using Cons.prems(2) by (auto simp: item acc')
    from Cons.IH [OF r this] obtain ks where
      ks: "map fst cleaned = map fst acc' @ ks" "subseq ks (map fst items)" by blast
    have "map fst cleaned = map fst acc @ (key # ks)" using ks(1) by (simp add: acc')
    moreover have "subseq (key # ks) (map fst (item # items))" using ks(2) by (simp add: item)
    ultimately show ?thesis by blast
  qed
qed

lemma calc_loop_origin:
  assumes "calc_loop items acc = (Inr cleaned, l)" and "(k, v') \<in> set cleaned"
  shows "(k, v') \<in> set acc \<or>
         (\<exists>v. (k, v) \<in> set items \<and> fst (check_value_set v) = Inr True
              \<and> additional_fields v = (Inr v', []))"
  using assms
proof (induction items arbitrary: acc l)
  case Nil
  then show ?case by (simp add: py_return_def)
next
  case (Cons item items)
  obtain key v where item: "item = (key, v)" by (cases item)
  from Cons.prems(1) obtain acc' l1 l2 where
    b: "loop_body key v acc = (Inr acc', l1)" and r: "calc_loop items acc' = (Inr cleaned, l2)"
    unfolding item by (auto elim: py_bind_InrD)
  from Cons.IH [OF r Cons.prems(2)] consider
    (old) "(k, v') \<in> set acc'"
    | (new) v where "(k, v) \<in> set items" "fst (check_value_set v) = Inr True"
        "additional_fields v = (Inr v', [])"
    by blast
  then show ?case
  proof cases
    case old
    from b show ?thesis
    proof (cases rule: loop_body_InrD)
      case skip
      then show ?thesis using old by simp
    next
      case (add w)
      then have "(k, v') = (key, w) \<or> (k, v') \<in> set acc"
        using old set_update_subset [of key w acc] by auto
      then show ?thesis using add by (auto simp: item)
    qed
  next
    case new
    then show ?thesis by (auto simp: item)
  qed
qed

lemma rental_unpriced_check:
  "check_value_set rental_unpriced =
     (Inr False,
      [(DEBUG, Text ''Checking price_per_day value''),
       (WARNING, Fmt_str ''Data validation failed: {}'' ''missing price_per_day'')])"
  by (simp add: rental_unpriced_def check_defs)

lemma batch_AB_run:
  "calculate_additional_fields (JObj batch_AB) = (Inr [(''B'', rental_A_enriched)], batch_AB_log)"
  by (simp add: calculate_additional_fields_def batch_AB_def batch_AB_log_def loop_body_def
      rental_unpriced_check rental_A_check rental_A_fields py_simps)

subsection \<open>The order of the checks\<close>





subsection \<open>A date that does not parse\<close>

lemma py_bind_assoc: "py_bind (py_bind m f) g = py_bind m (\<lambda>x. py_bind (f x) g)"
  by (auto simp: py_bind_def split: prod.splits sum.splits)

lemma py_bind_return: "py_bind (py_return x) f = f x"
  by (simp add: py_bind_def py_return_def split: prod.splits)

lemma calc_loop_append:
  "calc_loop (xs @ ys) acc = py_bind (calc_loop xs acc) (calc_loop ys)"
proof (induction xs arbitrary: acc)
  case Nil
  show ?case by (simp add: py_bind_return)
next
  case (Cons x xs)
  obtain key v where x: "x = (key, v)" by (cases x)
  have "calc_loop (xs @ ys) = (\<lambda>a. py_bind (calc_loop xs a) (calc_loop ys))"
    using Cons.IH by (intro ext)
  then show ?case by (simp add: x py_bind_assoc)
qed

lemma strptime_2020: "strptime (JStr ''2020-01-01'') = Inl (ValueError (No_match ''2020-01-01''))"
  unfolding strptime_def by (simp, code_simp)

lemma unparseable_escapes:
  assumes "getitem v ''price_per_day'' = Inr p" "truthy p" "ge_zero p = Inr True"
    and "getitem v ''product_code'' = Inr c" "truthy c"
    and "getitem v ''rental_start'' = Inr s" "truthy s"
    and "getitem v ''rental_end'' = Inr e" "truthy e"
    and "strptime s = Inl (ValueError x) \<or>
         (\<exists>a. strptime s = Inr a \<and> strptime e = Inl (ValueError x))"
  shows "check_value_set v =
           (Inl (ValueError x),
            [(DEBUG, Text ''Checking price_per_day value''),
             (DEBUG, Text ''Checking product_code value''),
             (DEBUG, Text ''Making sure rental date values are present''),
             (DEBUG, Text ''Checking rental date values make sense'')])"
  using assms by (auto simp: check_defs)

lemma strptime_str_error:
  assumes "strptime_str s = Inl err"
  obtains x where "err = ValueError x"
  using assms
  by (auto simp: strptime_str_def date_new_def split: list.splits prod.splits if_splits)

lemma loop_body_unparseable:
  assumes "check_value_set v = (Inl (ValueError x), l)"
  shows "loop_body key v acc = (Inl (SystemExit 0), l @ [(ERROR, Exc (ValueError x))])"
  using assms by (simp add: loop_body_def py_simps)

lemma load_json_text:
  assumes "fs input = Some (Json_text data i)"
  shows "load_rentals_file fs input = (Inr data, [])"
  using assms by (simp add: load_rentals_file_def json_load_def lift_def py_simps)

lemma batch_A_run:
  "calc_loop [(''A'', rental_A)] [] =
     (Inr [(''A'', rental_A_enriched)], CHECK_LOG @ [(DEBUG, Fmt ADDED rental_A_enriched)])"
  by (simp add: loop_body_def rental_A_check rental_A_fields py_simps)

subsection \<open>The output mapping, exactly\<close>

lemma calc_loop_exact:
  assumes "calc_loop items acc = (Inr cleaned, l)"
    and "distinct (map fst acc @ map fst items)"
  shows "\<exists>new. cleaned = acc @ new \<and> list_all2 enriched_from new (filter validated items)"
  using assms
proof (induction items arbitrary: acc l)
  case Nil
  then show ?case by (simp add: py_return_def)
next
  case (Cons item items)
  obtain key v where item: "item = (key, v)" by (cases item)
  from Cons.prems(1) obtain acc' l1 l2 where
    b: "loop_body key v acc = (Inr acc', l1)" and r: "calc_loop items acc' = (Inr cleaned, l2)"
    unfolding item by (auto elim: py_bind_InrD)
  from b show ?case
  proof (cases rule: loop_body_InrD)
    case skip
    have "distinct (map fst acc' @ map fst items)"
      using Cons.prems(2) skip by (simp add: item)
    from Cons.IH [OF r this] obtain new where
      "cleaned = acc' @ new" "list_all2 enriched_from new (filter validated items)" by blast
    moreover have "\<not> validated (key, v)" using skip by (simp add: validated_def)
    ultimately show ?thesis using skip by (auto simp: item)
  next
    case (add v')
    have fresh: "key \<notin> fst ` set acc" using Cons.prems(2) by (auto simp: item)
    then have acc': "acc' = acc @ [(key, v')]" using add by (simp add: update_fresh)
    have "distinct (map fst acc' @ map fst items)"
      using Cons.prems(2) by (auto simp: item acc')
    from Cons.IH [OF r this] obtain new where
      new: "cleaned = acc' @ new" "list_all2 enriched_from new (filter validated items)" by blast
    have "cleaned = acc @ ((key, v') # new)" using new(1) by (simp add: acc')
    moreover have "validated (key, v)" "enriched_from (key, v') (key, v)"
      using add by (simp_all add: validated_def enriched_from_def)
    then have "list_all2 enriched_from ((key, v') # new) (filter validated (item # items))"
      using new(2) by (simp add: item)
    ultimately show ?thesis by blast
  qed
qed

lemma enriched_from_keys:
  "list_all2 enriched_from xs ys \<Longrightarrow> map fst xs = map fst ys"
  by (induction rule: list_all2_induct) (simp_all add: enriched_from_def)

text \<open>
  Claim C8. When the batch completes on an input mapping, the output mapping holds exactly
  the validated input items, in input order, each under its original key with the
  enriched record: its keys, in insertion order, are the keys of the validated items in
  iteration order, hence a subsequence of the input keys and a subset of the input key
  set.
\<close>

theorem output_keys_follow_input:
  assumes "distinct (map fst items)"
    and "calculate_additional_fields (JObj items) = (Inr cleaned, l)"
  shows "list_all2 enriched_from cleaned (filter validated items)
       \<and> map fst cleaned = map fst (filter validated items)
       \<and> subseq (map fst cleaned) (map fst items)
       \<and> set (map fst cleaned) \<subseteq> set (map fst items)
       \<and> (\<forall>(k, v') \<in> set cleaned.
            \<exists>v. (k, v) \<in> set items \<and> fst (check_value_set v) = Inr True
                \<and> additional_fields v = (Inr v', []))"
proof -
  have loop: "calc_loop items [] = (Inr cleaned, l)"
    using assms(2) by (simp add: calculate_additional_fields_def)
  have exact: "list_all2 enriched_from cleaned (filter validated items)"
    using calc_loop_exact [OF loop] assms(1) by auto
  then have keys: "map fst cleaned = map fst (filter validated items)"
    by (rule enriched_from_keys)
  have sub: "subseq (map fst cleaned) (map fst items)"
    using calc_loop_keys [OF loop] assms(1) by auto
  have "k \<in> set (map fst items)" if "k \<in> set (map fst cleaned)" for k
    by (rule list_emb_set [OF sub that]) simp
  then have "set (map fst cleaned) \<subseteq> set (map fst items)"
    by blast
  moreover have "\<forall>(k, v') \<in> set cleaned.
      \<exists>v. (k, v) \<in> set items \<and> fst (check_value_set v) = Inr True
          \<and> additional_fields v = (Inr v', [])"
    using calc_loop_origin [OF loop] by auto
  ultimately show ?thesis using exact keys sub by blast
qed

lemma batch_skip_run:
  "calculate_additional_fields (JObj batch_skip) =
     (Inr [(''A'', rental_A_enriched), (''C'', rental_A_enriched)], batch_skip_log)"
  by (simp add: calculate_additional_fields_def batch_skip_def batch_skip_log_def loop_body_def
      rental_unpriced_check rental_A_check rental_A_fields py_simps)

theorem output_keys_follow_input_witness:
  "distinct (map fst batch_skip)
   \<and> calculate_additional_fields (JObj batch_skip) =
       (Inr [(''A'', rental_A_enriched), (''C'', rental_A_enriched)], batch_skip_log)
   \<and> filter validated batch_skip = [(''A'', rental_A), (''C'', rental_A)]
   \<and> list_all2 enriched_from [(''A'', rental_A_enriched), (''C'', rental_A_enriched)]
        (filter validated batch_skip)
   \<and> map fst [(''A'', rental_A_enriched), (''C'', rental_A_enriched)]
       = map fst (filter validated batch_skip)
   \<and> subseq (map fst [(''A'', rental_A_enriched), (''C'', rental_A_enriched)])
        (map fst batch_skip)"
proof -
  have d: "distinct (map fst batch_skip)" by (simp add: batch_skip_def)
  have "validated (''A'', rental_A)" "\<not> validated (''B'', rental_unpriced)"
    "validated (''C'', rental_A)"
    by (simp_all add: validated_def rental_A_check rental_unpriced_check)
  then have f: "filter validated batch_skip = [(''A'', rental_A), (''C'', rental_A)]"
    by (simp add: batch_skip_def)
  show ?thesis
    using d batch_skip_run f output_keys_follow_input [OF d batch_skip_run] by simp
qed

subsection \<open>Values of another type\<close>



lemma rental_int_start_check:
  "check_value_set rental_int_start =
     (Inl TypeError,
      [(DEBUG, Text ''Checking price_per_day value''),
       (DEBUG, Text ''Checking product_code value''),
       (DEBUG, Text ''Making sure rental date values are present''),
       (DEBUG, Text ''Checking rental date values make sense'')])"
  by (simp add: rental_int_start_def check_defs ge_zero_def strptime_def)


subsection \<open>A date that does not parse, in a run\<close>

lemma strptime_str_20200103:
  "strptime_str ''2020-01-03'' = Inl (ValueError (No_match ''2020-01-03''))"
  by code_simp

text \<open>
  Claim C3, as stated, fails in two ways. When an earlier check rejects the record:
  \<open>rental_unpriced\<close> has a start date that does not parse, but its price of zero fails
  the first check, so the record is skipped, the next record is processed and the output
  is written. And when the start date is not a string: \<open>rental_int_start\<close> has an end date
  that does not parse, but parsing its start date, the number 5, raises \<^verbatim>\<open>TypeError\<close>,
  which the batch does not catch, so the run ends with that exception and no error is
  logged.
\<close>

theorem unparseable_date_skipped_counterexample:
  "getitem rental_unpriced ''rental_start'' = Inr (JStr ''2020-01-01'')
   \<and> strptime (JStr ''2020-01-01'') = Inl (ValueError (No_match ''2020-01-01''))
   \<and> main [''in.json'' \<mapsto> Json_text (JObj batch_AB) 2] ''in.json'' ''out.json''
       = ([''in.json'' \<mapsto> Json_text (JObj batch_AB) 2,
           ''out.json'' \<mapsto> Json_text (JObj [(''B'', rental_A_enriched)]) 2],
          (Inr (), batch_AB_log @ [(DEBUG, Fmt_str ''Saving file %s'' ''out.json'')]))
   \<and> getitem rental_int_start ''rental_end'' = Inr (JStr ''2020-01-03'')
   \<and> strptime_str ''2020-01-03'' = Inl (ValueError (No_match ''2020-01-03''))
   \<and> main [''in.json'' \<mapsto> Json_text (JObj [(''A'', rental_int_start)]) 2]
         ''in.json'' ''out.json''
       = ([''in.json'' \<mapsto> Json_text (JObj [(''A'', rental_int_start)]) 2],
          (Inl TypeError,
           [(DEBUG, Text ''Checking price_per_day value''),
            (DEBUG, Text ''Checking product_code value''),
            (DEBUG, Text ''Making sure rental date values are present''),
            (DEBUG, Text ''Checking rental date values make sense'')]))"
proof -
  have a: "load_rentals_file [''in.json'' \<mapsto> Json_text (JObj batch_AB) 2] ''in.json''
        = (Inr (JObj batch_AB), [])"
    by (rule load_json_text [where i = 2]) simp
  have b: "load_rentals_file [''in.json'' \<mapsto> Json_text (JObj [(''A'', rental_int_start)]) 2]
          ''in.json''
        = (Inr (JObj [(''A'', rental_int_start)]), [])"
    by (rule load_json_text [where i = 2]) simp
  have c: "calculate_additional_fields (JObj [(''A'', rental_int_start)]) =
        (Inl TypeError,
           [(DEBUG, Text ''Checking price_per_day value''),
            (DEBUG, Text ''Checking product_code value''),
            (DEBUG, Text ''Making sure rental date values are present''),
            (DEBUG, Text ''Checking rental date values make sense'')])"
    by (simp add: calculate_additional_fields_def loop_body_def rental_int_start_check py_simps)
  have g: "getitem rental_unpriced ''rental_start'' = Inr (JStr ''2020-01-01'')"
    "getitem rental_int_start ''rental_end'' = Inr (JStr ''2020-01-03'')"
    by (simp_all add: rental_unpriced_def rental_int_start_def)
  show ?thesis
    using g
    by (simp add: main_def a b c batch_AB_run save_to_json_def logger_def strptime_2020
        strptime_str_20200103)
qed

text \<open>
  Claim C3, amended. Let a record be reached by the batch (the records before it are
  processed without a fatal error) and pass the checks that come before the date parse
  (price present, truthy and not negative; product code, start and end present and
  truthy). If its start is a string that does not parse, or its start parses and its end
  is a string that does not parse, then the parse error escapes the validator as a
  \<^verbatim>\<open>ValueError\<close>, the batch logs it as an error as its last record and exits, and the run
  leaves the files as they were: no later record is processed and nothing is written.
\<close>

theorem unparseable_date_aborts:
  assumes "fs infile = Some (Json_text (JObj (pre @ (key, v) # post)) i)"
    and "calc_loop pre [] = (Inr acc, l0)"
    and "getitem v ''price_per_day'' = Inr p" "truthy p" "ge_zero p = Inr True"
    and "getitem v ''product_code'' = Inr c" "truthy c"
    and "getitem v ''rental_start'' = Inr s" "truthy s"
    and "getitem v ''rental_end'' = Inr e" "truthy e"
    and "(\<exists>s'. s = JStr s' \<and> isl (strptime_str s')) \<or>
         (\<exists>a e'. strptime s = Inr a \<and> e = JStr e' \<and> isl (strptime_str e'))"
  shows "\<exists>x l. fst (check_value_set v) = Inl (ValueError x)
           \<and> main fs infile outfile = (fs, (Inl (SystemExit 0), l))
           \<and> last l = (ERROR, Exc (ValueError x))"
proof -
  have "\<exists>x. strptime s = Inl (ValueError x) \<or>
            (\<exists>a. strptime s = Inr a \<and> strptime e = Inl (ValueError x))"
    using assms(12)
  proof
    assume "\<exists>s'. s = JStr s' \<and> isl (strptime_str s')"
    then obtain s' err where "s = JStr s'" "strptime_str s' = Inl err"
      by (auto simp: isl_def)
    then show ?thesis by (auto simp: strptime_def elim: strptime_str_error)
  next
    assume "\<exists>a e'. strptime s = Inr a \<and> e = JStr e' \<and> isl (strptime_str e')"
    then obtain a e' err where "strptime s = Inr a" "e = JStr e'" "strptime_str e' = Inl err"
      by (auto simp: isl_def)
    then show ?thesis by (auto simp: strptime_def elim: strptime_str_error)
  qed
  then obtain x where x: "strptime s = Inl (ValueError x) \<or>
      (\<exists>a. strptime s = Inr a \<and> strptime e = Inl (ValueError x))" ..
  note check = unparseable_escapes [OF assms(3-11) x]
  note body = loop_body_unparseable [OF check, of key acc]
  have "calc_loop (pre @ (key, v) # post) [] =
        py_bind (calc_loop pre []) (calc_loop ((key, v) # post))"
    by (rule calc_loop_append)
  then have loop: "\<exists>l. calc_loop (pre @ (key, v) # post) [] = (Inl (SystemExit 0), l)
      \<and> last l = (ERROR, Exc (ValueError x))"
    by (simp add: assms(2) body py_simps)
  then obtain l where l: "calc_loop (pre @ (key, v) # post) [] = (Inl (SystemExit 0), l)"
    "last l = (ERROR, Exc (ValueError x))" by blast
  have "main fs infile outfile = (fs, (Inl (SystemExit 0), l))"
    using load_json_text [of fs infile "JObj (pre @ (key, v) # post)" i] assms(1) l(1)
    by (simp add: main_def calculate_additional_fields_def)
  then show ?thesis using check l(2) by auto
qed

theorem unparseable_date_aborts_witness:
  "[''in.json'' \<mapsto> Json_text (JObj batch_ABC) 2] ''in.json''
     = Some (Json_text (JObj ([(''A'', rental_A)] @ (''B'', rental_bad_date) # [(''C'', rental_A)])) 2)
   \<and> calc_loop [(''A'', rental_A)] [] =
       (Inr [(''A'', rental_A_enriched)], CHECK_LOG @ [(DEBUG, Fmt ADDED rental_A_enriched)])
   \<and> getitem rental_bad_date ''price_per_day'' = Inr (JInt 10)
   \<and> truthy (JInt 10) \<and> ge_zero (JInt 10) = Inr True
   \<and> getitem rental_bad_date ''product_code'' = Inr (JStr ''X'') \<and> truthy (JStr ''X'')
   \<and> getitem rental_bad_date ''rental_start'' = Inr (JStr ''2020-01-01'')
   \<and> truthy (JStr ''2020-01-01'')
   \<and> getitem rental_bad_date ''rental_end'' = Inr (JStr ''01/03/20'')
   \<and> truthy (JStr ''01/03/20'')
   \<and> isl (strptime_str ''2020-01-01'')
   \<and> (\<exists>x l. fst (check_value_set rental_bad_date) = Inl (ValueError x)
          \<and> main [''in.json'' \<mapsto> Json_text (JObj batch_ABC) 2] ''in.json'' ''out.json''
              = ([''in.json'' \<mapsto> Json_text (JObj batch_ABC) 2], (Inl (SystemExit 0), l))
          \<and> last l = (ERROR, Exc (ValueError x)))"
proof -
  have f: "[''in.json'' \<mapsto> Json_text (JObj batch_ABC) 2] ''in.json''
     = Some (Json_text (JObj ([(''A'', rental_A)] @ (''B'', rental_bad_date) # [(''C'', rental_A)])) 2)"
    by (simp add: batch_ABC_def)
  have g: "getitem rental_bad_date ''price_per_day'' = Inr (JInt 10)"
    "truthy (JInt 10)" "ge_zero (JInt 10) = Inr True"
    "getitem rental_bad_date ''product_code'' = Inr (JStr ''X'')" "truthy (JStr ''X'')"
    "getitem rental_bad_date ''rental_start'' = Inr (JStr ''2020-01-01'')"
    "truthy (JStr ''2020-01-01'')"
    "getitem rental_bad_date ''rental_end'' = Inr (JStr ''01/03/20'')"
    "truthy (JStr ''01/03/20'')"
    by (simp_all add: rental_bad_date_def ge_zero_def)
  have "isl (strptime (JStr ''2020-01-01''))" by (simp add: strptime_2020)
  then have p: "isl (strptime_str ''2020-01-01'')" by (simp add: strptime_def)
  then have q: "(\<exists>s'. JStr ''2020-01-01'' = JStr s' \<and> isl (strptime_str s')) \<or>
      (\<exists>a e'. strptime (JStr ''2020-01-01'') = Inr a \<and> JStr ''01/03/20'' = JStr e'
          \<and> isl (strptime_str e'))"
    by simp
  show ?thesis
    using f batch_A_run g p
      unparseable_date_aborts [where fs = "[''in.json'' \<mapsto> Json_text (JObj batch_ABC) 2]"
        and infile = "''in.json''" and outfile = "''out.json''", OF f batch_A_run g q]
    by simp
qed

subsection \<open>Failure modes of the enrichment arithmetic\<close>

lemma mul_int_validated:
  assumes "as_num p = Some (NInt i)"
  shows "mul (JInt n) p = Inr (JInt (n * i))"
  using assms by (simp add: mul_def int_mul_num)

lemma mul_float_validated:
  assumes "as_num p = Some (NFloat r)" "0 \<le> n" "n \<le> 3660000"
  shows "mul (JInt n) p = Inr (JFloat (real_of_int n * r))"
proof -
  have "to_float n = Inr (real_of_int n)"
    using assms float_overflow_big by (simp add: to_float_def)
  then show ?thesis using assms by (simp add: mul_def int_mul_num)
qed

lemma truediv_float_int:
  assumes "as_num u = Some (NInt j)" "0 < j"
  shows "truediv (JFloat x) u =
    (if float_overflow \<le> j then Inl OverflowError else Inr (JFloat (x / real_of_int j)))"
  using assms by (simp add: truediv_def to_float_def)

lemma truediv_float_float:
  assumes "as_num u = Some (NFloat q)" "q \<noteq> 0"
  shows "truediv (JFloat x) u = Inr (JFloat (x / q))"
  using assms by (simp add: truediv_def)

lemma enrich_overflow_iff:
  assumes "map_of kvs ''rental_start'' = Some s" "strptime s = Inr ds"
    and "map_of kvs ''rental_end'' = Some e" "strptime e = Inr de"
    and "date_le ds de"
    and "map_of kvs ''price_per_day'' = Some p" "ge_zero p = Inr True"
    and "map_of kvs ''units_rented'' = Some u" "truthy u" "ge_zero u = Inr True"
  shows "additional_fields (JObj kvs) = (Inl OverflowError, [])
         \<longleftrightarrow> overflows (days_between de ds) p u"
proof -
  note unfold = additional_fields_unfold [OF assms(1-4,6,8)]
  note span = validated_span [OF assms(2,4,5)]
  let ?t = "days_between de ds"
  show ?thesis
  proof (cases rule: ge_zero_TrueE [OF assms(7)])
    case (1 i)
    have m: "mul (JInt ?t) p = Inr (JInt (?t * i))" using 1(1) by (rule mul_int_validated)
    have k: "0 \<le> ?t * i" using span(1) 1(2) by simp
    have o: "overflows ?t p u = (float_overflow \<le> ?t * i)" using 1(1) by (simp add: overflows_def)
    show ?thesis
    proof (cases "float_overflow \<le> ?t * i")
      case True
      then show ?thesis using k by (simp add: unfold m math_sqrt_int o)
    next
      case False
      then have "?t * i < float_overflow" by simp
      from truediv_int_validated [OF k this assms(9,10)]
      obtain r where "truediv (JInt (?t * i)) u = Inr (JFloat r)" .
      then show ?thesis using False k by (simp add: unfold m math_sqrt_int o)
    qed
  next
    case (2 r)
    have m: "mul (JInt ?t) p = Inr (JFloat (real_of_int ?t * r))"
      using 2(1) span by (rule mul_float_validated)
    have x: "0 \<le> real_of_int ?t * r" using span(1) 2(2) by simp
    note sq = math_sqrt_float [OF x]
    show ?thesis
    proof (cases rule: ge_zero_TrueE [OF assms(10)])
      case (1 j)
      then have j: "0 < j" using truthy_num(1) [OF assms(9), of j] by simp
      have o: "overflows ?t p u = (float_overflow \<le> j)"
        using 2(1) 1(1) by (simp add: overflows_def)
      show ?thesis
        by (simp add: unfold m sq truediv_float_int [OF 1(1) j] o)
    next
      case u: (2 q)
      then have q: "q \<noteq> 0" using truthy_num(2) [OF assms(9), of q] by simp
      have o: "\<not> overflows ?t p u" using 2(1) u(1) by (simp add: overflows_def)
      show ?thesis
        by (simp add: unfold m sq truediv_float_float [OF u(1) q] o)
    qed
  qed
qed

lemma validated_recordE:
  assumes "fst (check_value_set v) = Inr True"
  obtains kvs p c s e u ds de where
    "v = JObj kvs"
    "map_of kvs ''rental_start'' = Some s" "strptime s = Inr ds"
    "map_of kvs ''rental_end'' = Some e" "strptime e = Inr de"
    "date_le ds de"
    "map_of kvs ''price_per_day'' = Some p" "ge_zero p = Inr True"
    "map_of kvs ''units_rented'' = Some u" "truthy u" "ge_zero u = Inr True"
proof -
  from assms obtain p c s e u ds de where h:
    "getitem v ''price_per_day'' = Inr p" "truthy p" "ge_zero p = Inr True"
    "getitem v ''product_code'' = Inr c" "truthy c"
    "getitem v ''rental_start'' = Inr s" "truthy s" "strptime s = Inr ds"
    "getitem v ''rental_end'' = Inr e" "truthy e" "strptime e = Inr de"
    "date_le ds de"
    "getitem v ''units_rented'' = Inr u" "truthy u" "ge_zero u = Inr True"
    by (rule check_value_set_passE)
  from h(1) obtain kvs where v: "v = JObj kvs"
    by (rule getitem_InrD)
  have m: "map_of kvs ''rental_start'' = Some s" "map_of kvs ''rental_end'' = Some e"
    "map_of kvs ''price_per_day'' = Some p" "map_of kvs ''units_rented'' = Some u"
    using h(1,6,9,13) unfolding v by (auto split: option.splits)
  show thesis
    by (rule that [OF v m(1) h(8) m(2) h(11) h(12) m(3) h(3) m(4) h(14) h(15)])
qed

lemma enrich_completes:
  assumes "map_of kvs ''rental_start'' = Some s" "strptime s = Inr ds"
    and "map_of kvs ''rental_end'' = Some e" "strptime e = Inr de"
    and "date_le ds de"
    and "map_of kvs ''price_per_day'' = Some p" "ge_zero p = Inr True"
    and "map_of kvs ''units_rented'' = Some u" "truthy u" "ge_zero u = Inr True"
  shows "if overflows (days_between de ds) p u
         then additional_fields (JObj kvs) = (Inl OverflowError, [])
         else (\<exists>v'. additional_fields (JObj kvs) = (Inr v', [])
                 \<and> getitem v' ''total_days'' = Inr (JInt (days_between de ds)))"
proof (cases "overflows (days_between de ds) p u")
  case True
  then show ?thesis using enrich_overflow_iff [OF assms] by simp
next
  case False
  then have n: "additional_fields (JObj kvs) \<noteq> (Inl OverflowError, [])"
    using enrich_overflow_iff [OF assms] by simp
  have "\<exists>v'. additional_fields (JObj kvs) = (Inr v', [])
          \<and> getitem v' ''total_days'' = Inr (JInt (days_between de ds))"
    using n by (cases rule: enrich_validated [OF assms]) (simp_all add: update_conv')
  then show ?thesis using False by simp
qed

lemma total_price_nonneg:
  assumes "strptime s = Inr ds" "strptime e = Inr de" "date_le ds de" "ge_zero p = Inr True"
  shows "\<exists>tp. mul (JInt (days_between de ds)) p = Inr tp \<and> ge_zero tp = Inr True"
  by (cases rule: mul_validated [OF validated_span [OF assms(1-3)] assms(4)])
     (auto simp: ge_zero_def)

text \<open>
  Claim C10, as stated, fails: \<open>rental_huge\<close> and \<open>rental_huge_units\<close> pass
  \<open>check_value_set\<close>, and the enrichment raises \<^verbatim>\<open>OverflowError\<close>: in the first when
  \<^verbatim>\<open>math.sqrt\<close> converts the total price \<open>2 * 10 ^ 400\<close> to a double, in the second when
  the division converts the \<open>10 ^ 400\<close> units to a double.
\<close>

theorem enrichment_overflow_counterexample:
  "fst (check_value_set rental_huge) = Inr True
   \<and> fst (additional_fields rental_huge) = Inl OverflowError
   \<and> fst (check_value_set rental_huge_units) = Inr True
   \<and> fst (additional_fields rental_huge_units) = Inl OverflowError"
proof -
  have c: "check_value_set rental_huge_units = (Inr True, CHECK_LOG)"
    by (simp add: rental_huge_units_def CHECK_LOG_def check_defs ge_zero_def strptime_010120
        strptime_010320 date_le_def)
  have f: "additional_fields rental_huge_units = (Inl OverflowError, [])"
    unfolding rental_huge_units_def
    by (subst additional_fields_unfold [where s = "JStr ''01/01/20''" and e = "JStr ''01/03/20''"
          and ds = "\<lparr>year = 2020, month = 1, day = 1\<rparr>"
          and de = "\<lparr>year = 2020, month = 1, day = 3\<rparr>"
          and p = "JFloat (3 / 2)" and u = "JInt (10 ^ 400)"])
       (simp_all add: strptime_010120 strptime_010320 span_A mul_def int_mul_def
          math_sqrt_def to_float_def truediv_def float_overflow_def)
  show ?thesis by (simp add: rental_huge_check rental_huge_fields c f)
qed

text \<open>
  Claim C10, amended. For every record for which \<open>check_value_set\<close> returns true, the day
  span is not negative and the total price is a number that is not negative, so the
  domain error of the square root is unreachable; the units are truthy, so the division by
  zero is unreachable. The enrichment completes, except on the records that \<open>overflows\<close>
  describes: an integer price with a total price of \<open>2 ^ 1024 - 2 ^ 970\<close> or more, or a
  float price with integer units of \<open>2 ^ 1024 - 2 ^ 970\<close> or more; on exactly those it
  raises \<^verbatim>\<open>OverflowError\<close>.
\<close>

theorem enrichment_failure_modes:
  assumes "fst (check_value_set v) = Inr True"
  shows "(\<exists>p u s e ds de tp.
            getitem v ''price_per_day'' = Inr p \<and> getitem v ''units_rented'' = Inr u
          \<and> getitem v ''rental_start'' = Inr s \<and> strptime s = Inr ds
          \<and> getitem v ''rental_end'' = Inr e \<and> strptime e = Inr de
          \<and> 0 \<le> days_between de ds
          \<and> mul (JInt (days_between de ds)) p = Inr tp \<and> ge_zero tp = Inr True
          \<and> truthy u
          \<and> (if overflows (days_between de ds) p u
              then additional_fields v = (Inl OverflowError, [])
              else (\<exists>v'. additional_fields v = (Inr v', []))))
       \<and> ((\<exists>v'. additional_fields v = (Inr v', [])) \<or>
          additional_fields v = (Inl OverflowError, []))
       \<and> fst (additional_fields v) \<noteq> Inl (ValueError Math_domain)
       \<and> fst (additional_fields v) \<noteq> Inl ZeroDivisionError"
proof -
  from assms obtain kvs p c s e u ds de where h:
    "v = JObj kvs"
    "map_of kvs ''rental_start'' = Some s" "strptime s = Inr ds"
    "map_of kvs ''rental_end'' = Some e" "strptime e = Inr de"
    "date_le ds de"
    "map_of kvs ''price_per_day'' = Some p" "ge_zero p = Inr True"
    "map_of kvs ''units_rented'' = Some u" "truthy u" "ge_zero u = Inr True"
    by (rule validated_recordE)
  note compl = enrich_completes [OF h(2-11)]
  have o: "if overflows (days_between de ds) p u
           then additional_fields v = (Inl OverflowError, [])
           else (\<exists>v'. additional_fields v = (Inr v', []))"
    using compl by (auto simp: h(1) split: if_splits)
  obtain tp where tp: "mul (JInt (days_between de ds)) p = Inr tp" "ge_zero tp = Inr True"
    using total_price_nonneg [OF h(3,5,6,8)] by blast
  have span: "0 \<le> days_between de ds" using h(3,5,6) by (rule validated_span)
  have first: "\<exists>p u s e ds de tp.
            getitem v ''price_per_day'' = Inr p \<and> getitem v ''units_rented'' = Inr u
          \<and> getitem v ''rental_start'' = Inr s \<and> strptime s = Inr ds
          \<and> getitem v ''rental_end'' = Inr e \<and> strptime e = Inr de
          \<and> 0 \<le> days_between de ds
          \<and> mul (JInt (days_between de ds)) p = Inr tp \<and> ge_zero tp = Inr True
          \<and> truthy u
          \<and> (if overflows (days_between de ds) p u
              then additional_fields v = (Inl OverflowError, [])
              else (\<exists>v'. additional_fields v = (Inr v', [])))"
    using h(2,3,4,5,7,9,10) span tp o unfolding h(1) by (intro exI conjI) simp_all
  have rest: "((\<exists>v'. additional_fields v = (Inr v', [])) \<or>
          additional_fields v = (Inl OverflowError, []))
       \<and> fst (additional_fields v) \<noteq> Inl (ValueError Math_domain)
       \<and> fst (additional_fields v) \<noteq> Inl ZeroDivisionError"
    by (rule enrichment_outcomes [OF assms]) simp_all
  show ?thesis using first rest by (rule conjI)
qed

theorem enrichment_failure_modes_witness:
  "fst (check_value_set rental_A) = Inr True
   \<and> ((\<exists>p u s e ds de tp.
            getitem rental_A ''price_per_day'' = Inr p \<and> getitem rental_A ''units_rented'' = Inr u
          \<and> getitem rental_A ''rental_start'' = Inr s \<and> strptime s = Inr ds
          \<and> getitem rental_A ''rental_end'' = Inr e \<and> strptime e = Inr de
          \<and> 0 \<le> days_between de ds
          \<and> mul (JInt (days_between de ds)) p = Inr tp \<and> ge_zero tp = Inr True
          \<and> truthy u
          \<and> (if overflows (days_between de ds) p u
              then additional_fields rental_A = (Inl OverflowError, [])
              else (\<exists>v'. additional_fields rental_A = (Inr v', []))))
       \<and> ((\<exists>v'. additional_fields rental_A = (Inr v', [])) \<or>
          additional_fields rental_A = (Inl OverflowError, []))
       \<and> fst (additional_fields rental_A) \<noteq> Inl (ValueError Math_domain)
       \<and> fst (additional_fields rental_A) \<noteq> Inl ZeroDivisionError)"
proof -
  have h: "fst (check_value_set rental_A) = Inr True" by (simp add: rental_A_check)
  show ?thesis using h enrichment_failure_modes [OF h] by (rule conjI)
qed

subsection \<open>The day span of a validated record\<close>

lemma assign_total_days_validated:
  assumes "map_of kvs ''rental_start'' = Some s" "strptime s = Inr ds"
    and "map_of kvs ''rental_end'' = Some e" "strptime e = Inr de"
  shows "assign_total_days (JObj kvs) =
    (Inr (JObj (AList.update ''total_days'' (JInt (days_between de ds)) kvs)), [])"
  using assms by (simp add: assign_total_days_def py_simps)

text \<open>
  Claim C5. For every record that passes validation, the assignment of line 100 is
  reached and gives \<open>total_days\<close> the integer day difference between the parsed
  \<open>rental_end\<close> and the parsed \<open>rental_start\<close>: the difference of their ordinals, which is
  the number of day steps from the start date to the end date, and which is never
  negative. Unless the later arithmetic overflows, the enriched record carries that value.
\<close>

theorem total_days_exact:
  assumes "fst (check_value_set v) = Inr True"
  shows "\<exists>p u s e ds de t v1.
           getitem v ''rental_start'' = Inr s \<and> strptime s = Inr ds
         \<and> getitem v ''rental_end'' = Inr e \<and> strptime e = Inr de
         \<and> getitem v ''price_per_day'' = Inr p \<and> getitem v ''units_rented'' = Inr u
         \<and> t = toordinal de - toordinal ds
         \<and> 0 \<le> t
         \<and> (next_day ^^ nat t) ds = de
         \<and> assign_total_days v = (Inr v1, [])
         \<and> getitem v1 ''total_days'' = Inr (JInt t)
         \<and> (if overflows t p u
             then additional_fields v = (Inl OverflowError, [])
             else (\<exists>v'. additional_fields v = (Inr v', [])
                     \<and> getitem v' ''total_days'' = Inr (JInt t)))"
proof -
  from assms obtain kvs p c s e u ds de where h:
    "v = JObj kvs"
    "map_of kvs ''rental_start'' = Some s" "strptime s = Inr ds"
    "map_of kvs ''rental_end'' = Some e" "strptime e = Inr de"
    "date_le ds de"
    "map_of kvs ''price_per_day'' = Some p" "ge_zero p = Inr True"
    "map_of kvs ''units_rented'' = Some u" "truthy u" "ge_zero u = Inr True"
    by (rule validated_recordE)
  let ?t = "toordinal de - toordinal ds"
  let ?v1 = "JObj (AList.update ''total_days'' (JInt ?t) kvs)"
  have eq: "days_between de ds = ?t" by (simp add: days_between_def)
  have r: "?t = toordinal de - toordinal ds" ..
  have cal: "calendar_date ds" "calendar_date de"
    using h(3,5) by (auto dest: strptime_valid valid_calendar_date)
  have nonneg: "0 \<le> ?t"
    using validated_span(1) [OF h(3,5,6)] unfolding eq .
  then have "toordinal ds \<le> toordinal de" by simp
  with cal have "(next_day ^^ nat (days_between de ds)) ds = de" by (rule days_between_steps)
  then have steps: "(next_day ^^ nat ?t) ds = de" unfolding eq .
  have a: "assign_total_days v = (Inr ?v1, [])"
    using assign_total_days_validated [OF h(2-5)] unfolding h(1) eq .
  have g: "getitem ?v1 ''total_days'' = Inr (JInt ?t)" by (simp add: update_conv')
  have o: "if overflows ?t p u
           then additional_fields v = (Inl OverflowError, [])
           else (\<exists>v'. additional_fields v = (Inr v', [])
                   \<and> getitem v' ''total_days'' = Inr (JInt ?t))"
    using enrich_completes [OF h(2-11)] unfolding h(1) eq .
  have f: "getitem v ''rental_start'' = Inr s" "getitem v ''rental_end'' = Inr e"
    "getitem v ''price_per_day'' = Inr p" "getitem v ''units_rented'' = Inr u"
    using h(2,4,7,9) by (simp_all add: h(1))
  from f(1) h(3) f(2) h(5) f(3,4) r nonneg steps a g o
  show ?thesis by (intro exI conjI)
qed

theorem total_days_exact_witness:
  "fst (check_value_set rental_A) = Inr True
   \<and> (\<exists>p u s e ds de t v1.
           getitem rental_A ''rental_start'' = Inr s \<and> strptime s = Inr ds
         \<and> getitem rental_A ''rental_end'' = Inr e \<and> strptime e = Inr de
         \<and> getitem rental_A ''price_per_day'' = Inr p \<and> getitem rental_A ''units_rented'' = Inr u
         \<and> t = toordinal de - toordinal ds
         \<and> 0 \<le> t
         \<and> (next_day ^^ nat t) ds = de
         \<and> assign_total_days rental_A = (Inr v1, [])
         \<and> getitem v1 ''total_days'' = Inr (JInt t)
         \<and> (if overflows t p u
             then additional_fields rental_A = (Inl OverflowError, [])
             else (\<exists>v'. additional_fields rental_A = (Inr v', [])
                     \<and> getitem v' ''total_days'' = Inr (JInt t))))"
proof -
  have h: "fst (check_value_set rental_A) = Inr True" by (simp add: rental_A_check)
  show ?thesis using h total_days_exact [OF h] by (rule conjI)
qed

end
